theory Spec2Isabelle
  imports Main "HOL-Library.Word" "HOL-Library.Sublist"
begin

section \<open>The low memory killer (drivers/staging/android/lowmemorykiller.c)\<close>

text \<open>
  A shallow embedding of the driver's decision code: \<open>adjust_minadj\<close>,
  \<open>lmk_vmpressure_notifier\<close> and \<open>lowmem_scan\<close>.

  Conventions.
  \<^item> \<open>unsigned long\<close> is \<open>64 word\<close> (the tick counter, the counters, resident set sizes,
    the returned page count); arithmetic on it wraps.
  \<^item> C \<open>int\<close> and \<open>short\<close> variables that are only assigned and compared (scores, table
    entries, sizes, pids, flags) are HOL integers; no arithmetic is done on them, so no
    wrap-around can occur. Where an \<open>unsigned long\<close> is stored into an \<open>int\<close> the
    truncation is written out (\<open>int_of_ulong\<close>), and where an \<open>int\<close> is added to an
    \<open>unsigned long\<close> the sign extension is written out (\<open>ulong_of_int\<close>).
  \<^item> The static arrays \<open>lowmem_adj\<close> and \<open>lowmem_minfree\<close> are lists; \<open>ARRAY_SIZE\<close> is
    the length of the list (6 in the source).
  \<^item> A \<open>struct task_struct *\<close> is a natural number; the tasks themselves live in a store,
    a function from pointers to task records. A NULL \<open>signal\<close> or \<open>mm\<close> pointer
    is \<open>None\<close>.
\<close>

subsection \<open>Kernel vocabulary the driver uses\<close>

type_synonym ulong = "64 word"
type_synonym task_ptr = nat

text \<open>Modelled from the spec: the constant \<open>OOM_SCORE_ADJ_MAX\<close> of linux/oom.h, which is
  not part of the driver file. The spec calls it the maximum possible priority; the driver's
  sentinel is one above it and its top window bucket starts at 1000.\<close>

definition OOM_SCORE_ADJ_MAX :: int where
  "OOM_SCORE_ADJ_MAX = 1000"

text \<open>Modelled from the spec: the macros \<open>time_after_eq\<close>, \<open>time_before_eq\<close> of
  linux/jiffies.h, which are not part of the driver file. The spec reads
  \<open>time_before_eq(jiffies, deadline)\<close> as "the current time is at or before the deadline";
  on the free-running tick counter this is the sign of the wrapped difference.\<close>

definition time_after_eq :: "ulong \<Rightarrow> ulong \<Rightarrow> bool" where
  "time_after_eq a b \<longleftrightarrow> 0 \<le> sint (a - b)"

definition time_before_eq :: "ulong \<Rightarrow> ulong \<Rightarrow> bool" where
  "time_before_eq a b \<longleftrightarrow> time_after_eq b a"

text \<open>The C conversions between \<open>unsigned long\<close> and \<open>int\<close>.\<close>

definition int_of_ulong :: "ulong \<Rightarrow> int" where
  "int_of_ulong x = sint (ucast x :: 32 word)"

definition ulong_of_int :: "int \<Rightarrow> ulong" where
  "ulong_of_int i = word_of_int i"

text \<open>\<open>strstr(h, n) != NULL\<close>: the needle occurs in the haystack.\<close>

fun strstr :: "string \<Rightarrow> string \<Rightarrow> bool" where
  "strstr [] n = (n = [])"
| "strstr (c # cs) n = (prefix n (c # cs) \<or> strstr cs n)"

text \<open>The two ways the C code can go wrong that the model makes explicit: the dereference
  of a NULL pointer and an array read out of bounds.\<close>

datatype fault = NullDeref | OutOfBounds

subsection \<open>Data\<close>

text \<open>What the driver reads of a \<open>struct task_struct\<close>. \<open>signal\<close> holds
  \<open>signal->oom_score_adj\<close> and \<open>mm\<close> holds \<open>get_mm_rss(mm)\<close>. The thread-group walks
  \<open>test_task_flag\<close> and \<open>find_lock_task_mm\<close> are seen at the level of the process: a flag is
  set when some thread has it, and the task returned by \<open>find_lock_task_mm\<close> is the process
  itself when it has an \<open>mm\<close>.\<close>

record task_struct =
  pid :: int
  comm :: string
  PF_KTHREAD :: bool
  TIF_MM_RELEASED :: bool
  TIF_MEMDIE :: bool
  signal :: "int option"
  mm :: "ulong option"

type_synonym store = "task_ptr \<Rightarrow> task_struct"

text \<open>The file-scope variables of the driver that the decision code reads or writes.
  \<open>adj_max_shift\<close> is never written and is a constant below. The variables of the
  logging and dump scheduling (\<open>print_log_flag\<close>, \<open>trigger_dump_mem\<close>,
  \<open>trigger_dumpsys_meminfo\<close>, their deadlines and \<open>meminfo_str\<close>) are left out: they
  are written only after the early exits of \<open>lowmem_scan\<close> and never read by the
  selection.\<close>

record lmk =
  lowmem_killNothing_timeout :: ulong
  lowmem_justkilled_timeout :: ulong
  killNothing :: int
  killNothing_adj :: int
  justkilled_adj :: int
  dumppid :: int
  dumppid_tasksize :: int
  lowmem_adj :: "int list"
  lowmem_adj_size :: int
  lowmem_minfree :: "int list"
  lowmem_minfree_size :: int
  shift_adj :: int
  enable_adaptive_lmk :: int
  vmpressure_file_min :: int
  lowmem_scan_count :: ulong
  lowmem_escape1_count :: ulong
  lowmem_escape2_count :: ulong
  lowmem_escape3_count :: ulong
  lowmem_kill_count :: ulong

definition adj_max_shift :: int where
  "adj_max_shift = 353"

definition ARRAY_SIZE :: "'a list \<Rightarrow> int" where
  "ARRAY_SIZE xs = int (length xs)"

text \<open>The counters read by the pressure notifier (\<open>global_page_state\<close>, \<open>zcache_pages\<close>,
  \<open>total_swapcache_pages\<close>).\<close>

record vm_counters =
  NR_FREE_PAGES :: ulong
  NR_FILE_PAGES :: ulong
  zcache_pages :: ulong
  NR_SHMEM :: ulong
  total_swapcache_pages :: ulong

text \<open>What one invocation of \<open>lowmem_scan\<close> takes from its surroundings: the build constants
  \<open>HZ\<close> and \<open>PAGE_SIZE\<close>, the tick counter, the caller's pid, whether the wait for
  \<open>scan_mutex\<close> is interrupted, whether \<open>kmalloc\<close> succeeds when a node for a task is
  allocated, and the two outputs of the estimator: \<open>other_free\<close> and \<open>other_file\<close> as they
  stand after \<open>tune_lmk_param\<close> (lines 485 to 498; the zone data it walks is not in the
  driver file). The tick counter is read as one value for the whole invocation.\<close>

record env =
  HZ :: nat
  PAGE_SIZE :: nat
  jiffies :: ulong
  current_pid :: int
  mutex_interrupted :: bool
  kmalloc_ok :: "task_ptr \<Rightarrow> bool"
  other_free :: int
  other_file :: int

subsection \<open>adjust_minadj\<close>

definition VMPRESSURE_NO_ADJUST :: int where "VMPRESSURE_NO_ADJUST = 0"
definition VMPRESSURE_ADJUST_ENCROACH :: int where "VMPRESSURE_ADJUST_ENCROACH = 1"
definition VMPRESSURE_ADJUST_NORMAL :: int where "VMPRESSURE_ADJUST_NORMAL = 2"

text \<open>Returns the return value, the score left in \<open>*min_score_adj\<close> and the globals.\<close>

definition adjust_minadj :: "lmk \<Rightarrow> int \<Rightarrow> int \<times> int \<times> lmk" where
  "adjust_minadj g min_score_adj =
     (if enable_adaptive_lmk g = 0 then (0, min_score_adj, g)
      else if shift_adj g \<noteq> 0 \<and> min_score_adj > adj_max_shift then
        ((if min_score_adj = OOM_SCORE_ADJ_MAX + 1 then VMPRESSURE_ADJUST_ENCROACH
          else VMPRESSURE_ADJUST_NORMAL),
         adj_max_shift, g\<lparr>shift_adj := 0\<rparr>)
      else (VMPRESSURE_NO_ADJUST, min_score_adj, g\<lparr>shift_adj := 0\<rparr>))"

subsection \<open>The threshold table\<close>

text \<open>\<open>array_size\<close> after the two clamps (lines 500 to 503, and 182 to 185).\<close>

definition table_size :: "lmk \<Rightarrow> int" where
  "table_size g =
     (let array_size = ARRAY_SIZE (lowmem_adj g);
          array_size = (if lowmem_adj_size g < array_size then lowmem_adj_size g else array_size);
          array_size = (if lowmem_minfree_size g < array_size then lowmem_minfree_size g
                        else array_size)
      in array_size)"

text \<open>The loop of lines 504 to 510 over the two arrays, from index \<open>i\<close> on; \<open>dflt\<close> is
  the value \<open>min_score_adj\<close> holds before the loop.\<close>

function threshold_loop :: "int list \<Rightarrow> int list \<Rightarrow> int \<Rightarrow> int \<Rightarrow> int \<Rightarrow> nat \<Rightarrow> int \<Rightarrow> int" where
  "threshold_loop adj minfrees ofree ofile array_size i dflt =
     (if int i < array_size then
        (let minfree = minfrees ! i in
         if ofree < minfree \<and> ofile < minfree then adj ! i
         else threshold_loop adj minfrees ofree ofile array_size (Suc i) dflt)
      else dflt)"
  by pat_completeness auto
termination
  by (relation "measure (\<lambda>(adj, minfrees, ofree, ofile, array_size, i, dflt).
                           nat (array_size - int i))") auto

declare threshold_loop.simps [simp del]

definition resolve_min_score_adj :: "lmk \<Rightarrow> int \<Rightarrow> int \<Rightarrow> int" where
  "resolve_min_score_adj g ofree ofile =
     threshold_loop (lowmem_adj g) (lowmem_minfree g) ofree ofile (table_size g) 0
       (OOM_SCORE_ADJ_MAX + 1)"

subsection \<open>lmk_vmpressure_notifier\<close>

text \<open>The notifier returns its return value and the globals. Reading
  \<open>lowmem_minfree[array_size - 1]\<close> with an empty table is a read before the array, which
  the model reports as a fault.\<close>

definition lmk_vmpressure_notifier :: "lmk \<Rightarrow> vm_counters \<Rightarrow> ulong \<Rightarrow> fault + (int \<times> lmk)" where
  "lmk_vmpressure_notifier g vm pressure =
     (if enable_adaptive_lmk g = 0 then Inr (0, g)
      else if 98 \<le> pressure then
        (let array_size = table_size g;
             ofile = int_of_ulong (NR_FILE_PAGES vm + zcache_pages vm - NR_SHMEM vm
                                   - total_swapcache_pages vm);
             ofree = int_of_ulong (NR_FREE_PAGES vm)
         in if array_size - 1 < 0 \<or> int (length (lowmem_minfree g)) \<le> array_size - 1
            then Inl OutOfBounds
            else if ofree < lowmem_minfree g ! nat (array_size - 1)
                    \<and> ofile < vmpressure_file_min g
            then Inr (0, g\<lparr>shift_adj := 1\<rparr>)
            else Inr (0, g))
      else if shift_adj g \<noteq> 0 then Inr (0, g\<lparr>shift_adj := 0\<rparr>)
      else Inr (0, g))"

subsection \<open>lowmem_scan: ranking the candidates\<close>

text \<open>What the trace of an invocation records: taking and releasing \<open>scan_mutex\<close>, the
  visit of a process by \<open>for_each_process\<close>, and \<open>send_sig(SIGKILL, ...)\<close>.\<close>

datatype event = MutexLock | MutexUnlock | Visit task_ptr | SendSigkill task_ptr

text \<open>The locals of \<open>lowmem_scan\<close> that live across its two loops, with the globals, the
  store the terminator marks, and the trace of what the invocation did. \<open>ListHead\<close> is the
  list of \<open>pTask\<close> pointers from \<open>ListHead.next\<close> to \<open>ListHead.prev\<close>.\<close>

record frame =
  G :: lmk
  ListHead :: "task_ptr list"
  nTaskNum :: int
  selected :: "task_ptr option"
  selected_tasksize :: int
  selected_oom_score_adj :: int
  rem :: ulong
  tasks :: store
  events :: "event list"

definition nTaskMax_of :: "bool \<Rightarrow> int \<Rightarrow> int" where
  "nTaskMax_of bIsAdapterLMK min_score_adj =
     (if bIsAdapterLMK then 2
      else if min_score_adj \<ge> 1000 then 1
      else if min_score_adj \<ge> 529 then 2
      else if min_score_adj \<ge> 300 then 4
      else if min_score_adj \<ge> 117 then 5
      else 6)"

text \<open>The body of the search loop (lines 667 to 696) for one node: does the loop
  \<open>break\<close> at \<open>pTask\<close>?\<close>

definition search_break :: "bool \<Rightarrow> store \<Rightarrow> int \<Rightarrow> int \<Rightarrow> task_ptr \<Rightarrow> bool" where
  "search_break bIsAdapterLMK M oom_score_adj tasksize pTask =
     (let nTargeteAdj = (case signal (M pTask) of Some a \<Rightarrow> a | None \<Rightarrow> 0);
          nTargetSize = (case mm (M pTask) of Some r \<Rightarrow> int_of_ulong r | None \<Rightarrow> 0)
      in if \<not> bIsAdapterLMK then
           (if oom_score_adj > nTargeteAdj then False
            else if oom_score_adj < nTargeteAdj then True
            else (if tasksize > nTargetSize then False else True))
         else tasksize \<le> nTargetSize)"

text \<open>The search loop: the number of nodes passed before the \<open>break\<close>; the length of the
  list when the loop runs off its end.\<close>

fun list_search :: "(task_ptr \<Rightarrow> bool) \<Rightarrow> task_ptr list \<Rightarrow> nat" where
  "list_search brk [] = 0"
| "list_search brk (q # qs) = (if brk q then 0 else Suc (list_search brk qs))"

text \<open>\<open>list_add\<close> of a new node after the first \<open>k\<close> nodes.\<close>

definition list_add_at :: "nat \<Rightarrow> task_ptr \<Rightarrow> task_ptr list \<Rightarrow> task_ptr list" where
  "list_add_at k p xs = take k xs @ p # drop k xs"

text \<open>Lines 655 to 729. \<open>pInsertPos\<close> is the number of nodes in front of the new one.
  Deleting \<open>ListHead.next\<close> is \<open>tl\<close>; the list is never empty there
  (\<open>nTaskNum\<close> is its length, see \<open>scan_tasks_window\<close>).\<close>

definition rank_insert ::
  "env \<Rightarrow> store \<Rightarrow> bool \<Rightarrow> int \<Rightarrow> frame \<Rightarrow> task_ptr \<Rightarrow> int \<Rightarrow> int \<Rightarrow> frame" where
  "rank_insert e M bIsAdapterLMK nTaskMax f p oom_score_adj tasksize =
     (if nTaskNum f = 0 then
        (if kmalloc_ok e p
         then f\<lparr>ListHead := p # ListHead f, nTaskNum := nTaskNum f + 1\<rparr>
         else f)
      else
        (let k = list_search (search_break bIsAdapterLMK M oom_score_adj tasksize) (ListHead f);
             pInsertPos =
               (if k = length (ListHead f) then Some k
                else if k = 0 then (if nTaskNum f < nTaskMax then Some 0 else None)
                else Some k);
             f1 = (case pInsertPos of
                     None \<Rightarrow> f
                   | Some j \<Rightarrow>
                       if kmalloc_ok e p
                       then f\<lparr>ListHead := list_add_at j p (ListHead f),
                              nTaskNum := nTaskNum f + 1\<rparr>
                       else f)
         in if nTaskNum f1 > nTaskMax
            then f1\<lparr>ListHead := tl (ListHead f1), nTaskNum := nTaskNum f1 - 1\<rparr>
            else f1))"

text \<open>Lines 602 to 612: the task remembered for the memory dump.\<close>

definition dump_candidate :: "env \<Rightarrow> task_struct \<Rightarrow> ulong \<Rightarrow> lmk \<Rightarrow> lmk" where
  "dump_candidate e t rss g0 =
     (let g = (if ulong_of_int (dumppid_tasksize g0) < rss
               then g0\<lparr>dumppid_tasksize := int_of_ulong rss, dumppid := pid t\<rparr>
               else g0)
      in if rss * of_nat (PAGE_SIZE e) div 1048576 > 600 \<and> strstr (comm t) ''system_server''
         then g\<lparr>dumppid := pid t\<rparr>
         else g)"

text \<open>One iteration of \<open>for_each_process\<close> (lines 572 to 729). \<open>p->signal\<close> is
  dereferenced without a check (line 591).\<close>

definition scan_task ::
  "env \<Rightarrow> store \<Rightarrow> int \<Rightarrow> bool \<Rightarrow> int \<Rightarrow> frame \<Rightarrow> task_ptr \<Rightarrow> fault + frame" where
  "scan_task e M min_score_adj bIsAdapterLMK nTaskMax f0 tsk =
     (let f = f0\<lparr>events := events f0 @ [Visit tsk]\<rparr>; t = M tsk in
      if PF_KTHREAD t then Inr f
      else if TIF_MM_RELEASED t then Inr f
      else if TIF_MEMDIE t then Inr f
      else case mm t of
        None \<Rightarrow> Inr f
      | Some rss \<Rightarrow>
         (case signal t of
            None \<Rightarrow> Inl NullDeref
          | Some oom_score_adj \<Rightarrow>
             (let f = f\<lparr>G := dump_candidate e t rss (G f)\<rparr>
              in if strstr (comm t) ''launcher'' \<and> min_score_adj > 200 then Inr f
                 else if strstr (comm t) ''auncher3:commo'' \<and> min_score_adj > 200 then Inr f
                 else if strstr (comm t) ''process.acore'' \<and> min_score_adj > 200 then Inr f
                 else if strstr (comm t) ''process.gapps'' \<and> min_score_adj > 200 then Inr f
                 else if strstr (comm t) ''process.media'' \<and> min_score_adj > 200 then Inr f
                 else if oom_score_adj < min_score_adj then Inr f
                 else (let tasksize = int_of_ulong rss in
                       if tasksize \<le> 0 then Inr f
                       else Inr (rank_insert e M bIsAdapterLMK nTaskMax f tsk
                                   oom_score_adj tasksize)))))"

fun scan_tasks ::
  "env \<Rightarrow> store \<Rightarrow> int \<Rightarrow> bool \<Rightarrow> int \<Rightarrow> frame \<Rightarrow> task_ptr list \<Rightarrow> fault + frame" where
  "scan_tasks e M min_score_adj bIsAdapterLMK nTaskMax f [] = Inr f"
| "scan_tasks e M min_score_adj bIsAdapterLMK nTaskMax f (tsk # rest) =
     (case scan_task e M min_score_adj bIsAdapterLMK nTaskMax f tsk of
        Inl x \<Rightarrow> Inl x
      | Inr f' \<Rightarrow> scan_tasks e M min_score_adj bIsAdapterLMK nTaskMax f' rest)"

subsection \<open>lowmem_scan: terminating the victims\<close>

text \<open>One iteration of the reverse walk over the list (lines 734 to 815). The size
  test of line 764 is computed in \<open>long\<close>, where it cannot overflow for a page size below
  \<open>2^32\<close>; \<open>HZ / nTaskMax\<close> divides two positive \<open>int\<close>s.\<close>

definition kill_step :: "env \<Rightarrow> int \<Rightarrow> bool \<Rightarrow> int \<Rightarrow> frame \<Rightarrow> task_ptr \<Rightarrow> frame" where
  "kill_step e min_score_adj bIsAdapterLMK nTaskMax f0 p =
     (let f = f0\<lparr>selected := Some p\<rparr>; t = tasks f p in
      if TIF_MEMDIE t then f
      else
        (let f = (case signal t of Some a \<Rightarrow> f\<lparr>selected_oom_score_adj := a\<rparr> | None \<Rightarrow> f) in
         if selected_oom_score_adj f < min_score_adj then f
         else if pid t = current_pid e then f
         else
           (let f = (case mm t of Some r \<Rightarrow> f\<lparr>selected_tasksize := int_of_ulong r\<rparr>
                                | None \<Rightarrow> f) in
            if bIsAdapterLMK \<and> selected_tasksize f * int (PAGE_SIZE e div 1024) < 80 * 1024
            then f
            else f\<lparr>G := (G f)\<lparr>killNothing := 0,
                                 killNothing_adj := 2000,
                                 lowmem_justkilled_timeout :=
                                   jiffies e + ulong_of_int (int (HZ e) div nTaskMax),
                                 justkilled_adj := min_score_adj,
                                 lowmem_kill_count := lowmem_kill_count (G f) + 1\<rparr>,
                   tasks := (tasks f)(p := t\<lparr>TIF_MEMDIE := True\<rparr>),
                   rem := rem f + ulong_of_int (selected_tasksize f),
                   events := events f @ [SendSigkill p]\<rparr>)))"

fun kill_tasks :: "env \<Rightarrow> int \<Rightarrow> bool \<Rightarrow> int \<Rightarrow> frame \<Rightarrow> task_ptr list \<Rightarrow> frame" where
  "kill_tasks e min_score_adj bIsAdapterLMK nTaskMax f [] = f"
| "kill_tasks e min_score_adj bIsAdapterLMK nTaskMax f (p # ps) =
     kill_tasks e min_score_adj bIsAdapterLMK nTaskMax
       (kill_step e min_score_adj bIsAdapterLMK nTaskMax f p) ps"

subsection \<open>lowmem_scan\<close>

text \<open>What an invocation leaves behind: the returned page count, the globals, the
  store, and the trace.\<close>

record outcome =
  ret :: ulong
  globals :: lmk
  store_after :: store
  trace :: "event list"

text \<open>The score \<open>min_score_adj\<close> holds after line 513, and \<open>bIsAdapterLMK\<close>.\<close>

definition min_score_adj_of :: "lmk \<Rightarrow> env \<Rightarrow> int" where
  "min_score_adj_of g e =
     fst (snd (adjust_minadj g (resolve_min_score_adj g (other_free e) (other_file e))))"

definition bIsAdapterLMK_of :: "lmk \<Rightarrow> env \<Rightarrow> bool" where
  "bIsAdapterLMK_of g e \<longleftrightarrow>
     resolve_min_score_adj g (other_free e) (other_file e) \<noteq> min_score_adj_of g e"

text \<open>\<open>lowmem_scan\<close> is written in parts that follow the source. In all of them \<open>M\<close> is
  the store as the scan loop reads it and \<open>Mk\<close> the store as the terminator finds it: a
  task may change between the two.

  The locals as the scan loop finds them (lines 450 to 476 and 551), with the mutex
  taken.\<close>

definition scan_frame :: "lmk \<Rightarrow> int \<Rightarrow> store \<Rightarrow> frame" where
  "scan_frame g min_score_adj Mk =
     \<lparr>G = g, ListHead = [], nTaskNum = 0, selected = None,
      selected_tasksize = 0, selected_oom_score_adj = min_score_adj,
      rem = 0, tasks = Mk, events = [MutexLock]\<rparr>"

text \<open>Lines 731 to 857, after the scan loop.\<close>

definition lowmem_scan_kill :: "env \<Rightarrow> int \<Rightarrow> bool \<Rightarrow> int \<Rightarrow> frame \<Rightarrow> outcome" where
  "lowmem_scan_kill e min_score_adj bIsAdapterLMK nTaskMax f0 =
     (let f = f0\<lparr>G := (G f0)\<lparr>killNothing := 1\<rparr>\<rparr>;
          f = kill_tasks e min_score_adj bIsAdapterLMK nTaskMax f (rev (ListHead f));
          g = G f;
          g = (if killNothing g \<noteq> 0
               then g\<lparr>killNothing_adj := min_score_adj,
                      lowmem_killNothing_timeout := jiffies e + ulong_of_int (2 * int (HZ e))\<rparr>
               else g)
      in \<lparr>ret = rem f, globals = g, store_after = tasks f,
          trace = events f @ [MutexUnlock]\<rparr>)"

text \<open>Lines 551 to 857: the window size, the scan loop over the empty window, and the
  rest.\<close>

definition lowmem_scan_select ::
  "env \<Rightarrow> lmk \<Rightarrow> int \<Rightarrow> bool \<Rightarrow> task_ptr list \<Rightarrow> store \<Rightarrow> store \<Rightarrow> fault + outcome" where
  "lowmem_scan_select e g min_score_adj bIsAdapterLMK procs M Mk =
     (let nTaskMax = nTaskMax_of bIsAdapterLMK min_score_adj;
          f = scan_frame g min_score_adj Mk
      in case scan_tasks e M min_score_adj bIsAdapterLMK nTaskMax f procs of
           Inl x \<Rightarrow> Inl x
         | Inr f \<Rightarrow> Inr (lowmem_scan_kill e min_score_adj bIsAdapterLMK nTaskMax f))"

text \<open>Lines 520 to 549: the two cooldown gates and the sentinel, with the mutex held.
  The conditions of the two gates (lines 520 and 530) are named.\<close>

definition post_kill_gate :: "env \<Rightarrow> lmk \<Rightarrow> int \<Rightarrow> bool" where
  "post_kill_gate e g min_score_adj \<longleftrightarrow>
     min_score_adj \<ge> justkilled_adj g
     \<and> time_before_eq (jiffies e) (lowmem_justkilled_timeout g)"

definition kill_nothing_gate :: "env \<Rightarrow> lmk \<Rightarrow> int \<Rightarrow> bool" where
  "kill_nothing_gate e g min_score_adj \<longleftrightarrow>
     min_score_adj \<ge> killNothing_adj g
     \<and> time_before_eq (jiffies e) (lowmem_killNothing_timeout g)"

definition lowmem_scan_gates ::
  "env \<Rightarrow> lmk \<Rightarrow> int \<Rightarrow> bool \<Rightarrow> task_ptr list \<Rightarrow> store \<Rightarrow> store \<Rightarrow> fault + outcome" where
  "lowmem_scan_gates e g min_score_adj bIsAdapterLMK procs M Mk =
     (if post_kill_gate e g min_score_adj
      then Inr \<lparr>ret = 0,
                globals = g\<lparr>lowmem_escape1_count := lowmem_escape1_count g + 1\<rparr>,
                store_after = Mk, trace = [MutexLock, MutexUnlock]\<rparr>
      else if kill_nothing_gate e g min_score_adj
      then Inr \<lparr>ret = 0,
                globals = g\<lparr>lowmem_escape2_count := lowmem_escape2_count g + 1\<rparr>,
                store_after = Mk, trace = [MutexLock, MutexUnlock]\<rparr>
      else if min_score_adj = OOM_SCORE_ADJ_MAX + 1
      then Inr \<lparr>ret = 0,
                globals = g\<lparr>lowmem_escape3_count := lowmem_escape3_count g + 1\<rparr>,
                store_after = Mk, trace = [MutexLock, MutexUnlock]\<rparr>
      else lowmem_scan_select e g min_score_adj bIsAdapterLMK procs M Mk)"

text \<open>Lines 477 to 516, and the whole function.\<close>

definition lowmem_scan :: "env \<Rightarrow> lmk \<Rightarrow> task_ptr list \<Rightarrow> store \<Rightarrow> store \<Rightarrow> fault + outcome" where
  "lowmem_scan e g0 procs M Mk =
     (let g = g0\<lparr>dumppid_tasksize := 0, dumppid := 0\<rparr> in
      if mutex_interrupted e
      then Inr \<lparr>ret = 0, globals = g, store_after = Mk, trace = []\<rparr>
      else
        (let g = g\<lparr>lowmem_scan_count := lowmem_scan_count g + 1\<rparr>;
             previous_min_score_adj = resolve_min_score_adj g (other_free e) (other_file e);
             adjusted = adjust_minadj g previous_min_score_adj;
             min_score_adj = fst (snd adjusted);
             g = snd (snd adjusted);
             bIsAdapterLMK = (previous_min_score_adj \<noteq> min_score_adj)
         in lowmem_scan_gates e g min_score_adj bIsAdapterLMK procs M Mk))"

text \<open>The globals as line 513 leaves them when the mutex was taken.\<close>

definition entry_globals :: "lmk \<Rightarrow> lmk" where
  "entry_globals g =
     g\<lparr>dumppid_tasksize := 0, dumppid := 0,
       lowmem_scan_count := lowmem_scan_count g + 1,
       shift_adj := (if enable_adaptive_lmk g = 0 then shift_adj g else 0)\<rparr>"

subsection \<open>Notions used to state the properties\<close>

text \<open>The early exits of \<open>lowmem_scan\<close>: the interrupted wait for the mutex, the two
  cooldown gates and the sentinel.\<close>

definition early_exit :: "env \<Rightarrow> lmk \<Rightarrow> bool" where
  "early_exit e g \<longleftrightarrow>
     mutex_interrupted e
     \<or> post_kill_gate e g (min_score_adj_of g e)
     \<or> kill_nothing_gate e g (min_score_adj_of g e)
     \<or> min_score_adj_of g e = OOM_SCORE_ADJ_MAX + 1"

text \<open>The bound on the candidate window: \<open>nTaskNum\<close> is the length of the list and is at
  most \<open>nTaskMax\<close>.\<close>

definition window_ok :: "int \<Rightarrow> frame \<Rightarrow> bool" where
  "window_ok nTaskMax f \<longleftrightarrow>
     nTaskNum f = int (length (ListHead f)) \<and> nTaskNum f \<le> nTaskMax"

text \<open>Two states of the globals that agree on everything but the dump target.\<close>

definition same_but_dump :: "lmk \<Rightarrow> lmk \<Rightarrow> bool" where
  "same_but_dump g g' \<longleftrightarrow>
     g' = g\<lparr>dumppid := dumppid g', dumppid_tasksize := dumppid_tasksize g'\<rparr>"

text \<open>A task that passes the filters of the scan loop up to the size test (the name
  exemptions apart).\<close>

definition eligible :: "store \<Rightarrow> int \<Rightarrow> task_ptr \<Rightarrow> bool" where
  "eligible M min_score_adj t \<longleftrightarrow>
     \<not> PF_KTHREAD (M t) \<and> \<not> TIF_MM_RELEASED (M t) \<and> \<not> TIF_MEMDIE (M t)
     \<and> (\<exists>a rss. signal (M t) = Some a \<and> mm (M t) = Some rss
            \<and> min_score_adj \<le> a \<and> 0 < int_of_ulong rss)"

text \<open>The values \<open>selected_oom_score_adj\<close> and \<open>selected_tasksize\<close> hold after lines 747
  and 760: the task's own when it still has a \<open>signal\<close> or an \<open>mm\<close>, the previous
  iteration's otherwise. A task is accepted when none of the four \<open>continue\<close> tests of the
  terminator applies.\<close>

definition score_now :: "frame \<Rightarrow> task_ptr \<Rightarrow> int" where
  "score_now f p = (case signal (tasks f p) of Some a \<Rightarrow> a | None \<Rightarrow> selected_oom_score_adj f)"

definition size_now :: "frame \<Rightarrow> task_ptr \<Rightarrow> int" where
  "size_now f p = (case mm (tasks f p) of Some r \<Rightarrow> int_of_ulong r | None \<Rightarrow> selected_tasksize f)"

definition accepted :: "env \<Rightarrow> int \<Rightarrow> bool \<Rightarrow> frame \<Rightarrow> task_ptr \<Rightarrow> bool" where
  "accepted e min_score_adj bIsAdapterLMK f p \<longleftrightarrow>
     \<not> TIF_MEMDIE (tasks f p)
     \<and> min_score_adj \<le> score_now f p
     \<and> pid (tasks f p) \<noteq> current_pid e
     \<and> \<not> (bIsAdapterLMK \<and> size_now f p * int (PAGE_SIZE e div 1024) < 80 * 1024)"

text \<open>The size the search loop reads for a node (\<open>nTargetSize\<close>).\<close>

definition rss_key :: "store \<Rightarrow> task_ptr \<Rightarrow> int" where
  "rss_key M q = (case mm (M q) of Some r \<Rightarrow> int_of_ulong r | None \<Rightarrow> 0)"

subsection \<open>Concrete inputs\<close>

text \<open>The globals as the source initialises them.\<close>

definition lmk_init :: lmk where
  "lmk_init =
     \<lparr>lowmem_killNothing_timeout = 0, lowmem_justkilled_timeout = 0, killNothing = 0,
      killNothing_adj = 2000, justkilled_adj = 2000, dumppid = 0, dumppid_tasksize = 0,
      lowmem_adj = [0, 1, 6, 12, 0, 0], lowmem_adj_size = 4,
      lowmem_minfree = [3 * 512, 2 * 1024, 4 * 1024, 16 * 1024, 0, 0],
      lowmem_minfree_size = 4,
      shift_adj = 0, enable_adaptive_lmk = 0, vmpressure_file_min = 0,
      lowmem_scan_count = 0, lowmem_escape1_count = 0, lowmem_escape2_count = 0,
      lowmem_escape3_count = 0, lowmem_kill_count = 0\<rparr>"

definition env_ex :: env where
  "env_ex =
     \<lparr>HZ = 100, PAGE_SIZE = 4096, jiffies = 5000, current_pid = 1,
      mutex_interrupted = False, kmalloc_ok = (\<lambda>p. True),
      other_free = 3000, other_file = 5000\<rparr>"

text \<open>Three tasks: a 500 MB and a 50 MB application of score 900 (128000 and 12800 pages
  of 4 KB) at the addresses 11 and 12, and a kernel thread everywhere else.\<close>

definition big_app :: task_struct where
  "big_app = \<lparr>pid = 101, comm = ''big_app'', PF_KTHREAD = False, TIF_MM_RELEASED = False,
               TIF_MEMDIE = False, signal = Some 900, mm = Some 128000\<rparr>"

definition small_app :: task_struct where
  "small_app = \<lparr>pid = 102, comm = ''small_app'', PF_KTHREAD = False, TIF_MM_RELEASED = False,
                 TIF_MEMDIE = False, signal = Some 900, mm = Some 12800\<rparr>"

definition kthreadd :: task_struct where
  "kthreadd = \<lparr>pid = 2, comm = ''kthreadd'', PF_KTHREAD = True, TIF_MM_RELEASED = False,
                TIF_MEMDIE = False, signal = Some 0, mm = None\<rparr>"

definition tasks_ex :: store where
  "tasks_ex p = (if p = 11 then big_app else if p = 12 then small_app else kthreadd)"

text \<open>The globals shortly after a kill at score 12: the cooldown runs until tick 5025.\<close>

definition lmk_cooling :: lmk where
  "lmk_cooling = lmk_init\<lparr>justkilled_adj := 12, lowmem_justkilled_timeout := 5025\<rparr>"

text \<open>The adaptive feature enabled and armed, and estimator outputs that match no table
  entry. A caller whose wait for the mutex is interrupted.\<close>

definition lmk_armed :: lmk where
  "lmk_armed = lmk_init\<lparr>enable_adaptive_lmk := 1, shift_adj := 1\<rparr>"

definition env_tight :: env where
  "env_tight = env_ex\<lparr>other_free := 20000, other_file := 100\<rparr>"

definition env_interrupted :: env where
  "env_interrupted = env_ex\<lparr>mutex_interrupted := True\<rparr>"

text \<open>The tasks as the terminator finds them when the 50 MB application has exited after
  the scan: its \<open>mm\<close> is gone.\<close>

definition tasks_exited :: store where
  "tasks_exited p = (if p = 12 then small_app\<lparr>mm := None\<rparr> else tasks_ex p)"

text \<open>The adaptive feature enabled with a file threshold of 20480 pages, and counters of a
  system short of both free and file pages.\<close>

definition lmk_adaptive :: lmk where
  "lmk_adaptive = lmk_init\<lparr>enable_adaptive_lmk := 1, vmpressure_file_min := 20480\<rparr>"

definition vm_low :: vm_counters where
  "vm_low = \<lparr>NR_FREE_PAGES = 1000, NR_FILE_PAGES = 3000, zcache_pages = 0, NR_SHMEM = 500,
             total_swapcache_pages = 100\<rparr>"

section \<open>Properties\<close>

subsection \<open>The concrete inputs\<close>

lemma lmk_init_table_size: "table_size lmk_init = 4"
  by (simp add: table_size_def lmk_init_def ARRAY_SIZE_def Let_def)

lemma lmk_init_tables:
  "lowmem_adj lmk_init = [0, 1, 6, 12, 0, 0]"
  "lowmem_minfree lmk_init = [1536, 2048, 4096, 16384, 0, 0]"
  "enable_adaptive_lmk lmk_init = 0"
  by (simp_all add: lmk_init_def)

lemma env_ex_fields:
  "other_free env_ex = 3000" "other_file env_ex = 5000" "\<not> mutex_interrupted env_ex"
  "jiffies env_ex = 5000" "HZ env_ex = 100" "PAGE_SIZE env_ex = 4096" "current_pid env_ex = 1"
  "kmalloc_ok env_ex p"
  by (simp_all add: env_ex_def)


subsection \<open>Threshold resolution\<close>

lemma threshold_loop_none:
  "(\<And>j. i \<le> j \<Longrightarrow> int j < n \<Longrightarrow> \<not> (ofree < mf ! j \<and> ofile < mf ! j))
   \<Longrightarrow> threshold_loop adj mf ofree ofile n i d = d"
proof (induction adj mf ofree ofile n i d rule: threshold_loop.induct)
  case (1 adj mf ofree ofile array_size i dflt)
  show ?case
  proof (cases "int i < array_size")
    case True
    have nomatch: "\<not> (ofree < mf ! i \<and> ofile < mf ! i)"
      using "1.prems"[of i] True by simp
    have "threshold_loop adj mf ofree ofile array_size (Suc i) dflt = dflt"
      using "1.IH"[OF True refl] nomatch "1.prems" by auto
    then show ?thesis
      using True nomatch by (subst threshold_loop.simps) (auto simp: Let_def)
  next
    case False
    then show ?thesis by (subst threshold_loop.simps) simp
  qed
qed

lemma threshold_loop_first:
  "i \<le> k \<Longrightarrow> int k < n \<Longrightarrow> ofree < mf ! k \<and> ofile < mf ! k \<Longrightarrow>
   (\<And>j. i \<le> j \<Longrightarrow> j < k \<Longrightarrow> \<not> (ofree < mf ! j \<and> ofile < mf ! j))
   \<Longrightarrow> threshold_loop adj mf ofree ofile n i d = adj ! k"
proof (induction adj mf ofree ofile n i d rule: threshold_loop.induct)
  case (1 adj mf ofree ofile array_size i dflt)
  have lt: "int i < array_size" using "1.prems"(1,2) by linarith
  show ?case
  proof (cases "i = k")
    case True
    then show ?thesis
      using lt "1.prems"(3) by (subst threshold_loop.simps) (simp add: Let_def)
  next
    case False
    then have ik: "i < k" using "1.prems"(1) by simp
    have nomatch: "\<not> (ofree < mf ! i \<and> ofile < mf ! i)"
      using "1.prems"(4)[of i] ik by simp
    have "threshold_loop adj mf ofree ofile array_size (Suc i) dflt = adj ! k"
      using "1.IH"[OF lt refl] nomatch ik "1.prems" by auto
    then show ?thesis
      using lt nomatch by (subst threshold_loop.simps) (auto simp: Let_def)
  qed
qed

lemma table_size_min:
  "table_size g =
     min (ARRAY_SIZE (lowmem_adj g)) (min (lowmem_adj_size g) (lowmem_minfree_size g))"
  by (simp add: table_size_def Let_def min_def)

lemma resolve_frame [simp]:
  "resolve_min_score_adj (g\<lparr>dumppid_tasksize := a\<rparr>) = resolve_min_score_adj g"
  "resolve_min_score_adj (g\<lparr>dumppid := b\<rparr>) = resolve_min_score_adj g"
  "resolve_min_score_adj (g\<lparr>lowmem_scan_count := c\<rparr>) = resolve_min_score_adj g"
  by (simp_all add: resolve_min_score_adj_def table_size_def fun_eq_iff Let_def)

subsection \<open>The entry of lowmem_scan and its early exits\<close>

lemma adjust_minadj_globals:
  "snd (snd (adjust_minadj g m)) =
     g\<lparr>shift_adj := (if enable_adaptive_lmk g = 0 then shift_adj g else 0)\<rparr>"
  by (simp add: adjust_minadj_def)

lemma adjust_minadj_score_frame [simp]:
  "fst (snd (adjust_minadj (g\<lparr>dumppid_tasksize := a\<rparr>) m)) = fst (snd (adjust_minadj g m))"
  "fst (snd (adjust_minadj (g\<lparr>dumppid := b\<rparr>) m)) = fst (snd (adjust_minadj g m))"
  "fst (snd (adjust_minadj (g\<lparr>lowmem_scan_count := c\<rparr>) m)) = fst (snd (adjust_minadj g m))"
  by (simp_all add: adjust_minadj_def)

lemma lowmem_scan_interrupted:
  "mutex_interrupted e \<Longrightarrow>
   lowmem_scan e g procs M Mk =
     Inr \<lparr>ret = 0, globals = g\<lparr>dumppid_tasksize := 0, dumppid := 0\<rparr>,
          store_after = Mk, trace = []\<rparr>"
  by (simp add: lowmem_scan_def)

lemma lowmem_scan_running:
  "\<not> mutex_interrupted e \<Longrightarrow>
   lowmem_scan e g procs M Mk =
     lowmem_scan_gates e (entry_globals g) (min_score_adj_of g e) (bIsAdapterLMK_of g e)
       procs M Mk"
  by (simp add: lowmem_scan_def Let_def adjust_minadj_globals entry_globals_def
        min_score_adj_of_def bIsAdapterLMK_of_def)

lemma lowmem_scan_gates_sentinel:
  "\<exists>r. lowmem_scan_gates e g (OOM_SCORE_ADJ_MAX + 1) b procs M Mk = Inr r
        \<and> ret r = 0 \<and> store_after r = Mk \<and> trace r = [MutexLock, MutexUnlock]"
  unfolding lowmem_scan_gates_def
  by (cases "post_kill_gate e g (OOM_SCORE_ADJ_MAX + 1)";
      cases "kill_nothing_gate e g (OOM_SCORE_ADJ_MAX + 1)") simp_all

lemma entry_globals_throttle [simp]:
  "lowmem_killNothing_timeout (entry_globals g) = lowmem_killNothing_timeout g"
  "lowmem_justkilled_timeout (entry_globals g) = lowmem_justkilled_timeout g"
  "killNothing (entry_globals g) = killNothing g"
  "killNothing_adj (entry_globals g) = killNothing_adj g"
  "justkilled_adj (entry_globals g) = justkilled_adj g"
  by (simp_all add: entry_globals_def)

lemma entry_globals_counters [simp]:
  "lowmem_escape1_count (entry_globals g) = lowmem_escape1_count g"
  "lowmem_escape2_count (entry_globals g) = lowmem_escape2_count g"
  "lowmem_escape3_count (entry_globals g) = lowmem_escape3_count g"
  "lowmem_kill_count (entry_globals g) = lowmem_kill_count g"
  "lowmem_scan_count (entry_globals g) = lowmem_scan_count g + 1"
  by (simp_all add: entry_globals_def)

lemma gates_entry_globals [simp]:
  "post_kill_gate e (entry_globals g) m = post_kill_gate e g m"
  "kill_nothing_gate e (entry_globals g) m = kill_nothing_gate e g m"
  by (simp_all add: post_kill_gate_def kill_nothing_gate_def)

lemma lowmem_scan_gates_escape1:
  "post_kill_gate e g m \<Longrightarrow>
   lowmem_scan_gates e g m b procs M Mk =
     Inr \<lparr>ret = 0, globals = g\<lparr>lowmem_escape1_count := lowmem_escape1_count g + 1\<rparr>,
          store_after = Mk, trace = [MutexLock, MutexUnlock]\<rparr>"
  unfolding lowmem_scan_gates_def by (simp only: if_True)

lemma lowmem_scan_gates_escape2:
  "\<not> post_kill_gate e g m \<Longrightarrow> kill_nothing_gate e g m \<Longrightarrow>
   lowmem_scan_gates e g m b procs M Mk =
     Inr \<lparr>ret = 0, globals = g\<lparr>lowmem_escape2_count := lowmem_escape2_count g + 1\<rparr>,
          store_after = Mk, trace = [MutexLock, MutexUnlock]\<rparr>"
  unfolding lowmem_scan_gates_def by (simp only: if_True if_False)

lemma lowmem_scan_gates_escape3:
  "\<not> post_kill_gate e g m \<Longrightarrow> \<not> kill_nothing_gate e g m \<Longrightarrow> m = OOM_SCORE_ADJ_MAX + 1 \<Longrightarrow>
   lowmem_scan_gates e g m b procs M Mk =
     Inr \<lparr>ret = 0, globals = g\<lparr>lowmem_escape3_count := lowmem_escape3_count g + 1\<rparr>,
          store_after = Mk, trace = [MutexLock, MutexUnlock]\<rparr>"
  unfolding lowmem_scan_gates_def by (simp only: if_True if_False refl)

lemma lowmem_scan_gates_open:
  "\<not> post_kill_gate e g m \<Longrightarrow> \<not> kill_nothing_gate e g m \<Longrightarrow> m \<noteq> OOM_SCORE_ADJ_MAX + 1 \<Longrightarrow>
   lowmem_scan_gates e g m b procs M Mk = lowmem_scan_select e g m b procs M Mk"
  unfolding lowmem_scan_gates_def by (simp only: if_True if_False)

lemma lowmem_scan_escape1:
  assumes "\<not> mutex_interrupted e" "post_kill_gate e g (min_score_adj_of g e)"
  shows "lowmem_scan e g procs M Mk =
     Inr \<lparr>ret = 0,
          globals = (entry_globals g)\<lparr>lowmem_escape1_count := lowmem_escape1_count g + 1\<rparr>,
          store_after = Mk, trace = [MutexLock, MutexUnlock]\<rparr>"
  using assms by (simp add: lowmem_scan_running lowmem_scan_gates_escape1)

lemma lowmem_scan_gates_early:
  assumes "post_kill_gate e g m \<or> kill_nothing_gate e g m \<or> m = OOM_SCORE_ADJ_MAX + 1"
  shows "\<exists>c1 c2 c3. lowmem_scan_gates e g m b procs M Mk =
     Inr \<lparr>ret = 0,
          globals = g\<lparr>lowmem_escape1_count := c1, lowmem_escape2_count := c2,
                      lowmem_escape3_count := c3\<rparr>,
          store_after = Mk, trace = [MutexLock, MutexUnlock]\<rparr>"
proof -
  consider
    (one) "post_kill_gate e g m"
  | (two) "\<not> post_kill_gate e g m" "kill_nothing_gate e g m"
  | (three) "\<not> post_kill_gate e g m" "\<not> kill_nothing_gate e g m" "m = OOM_SCORE_ADJ_MAX + 1"
    using assms by blast
  then show ?thesis
  proof cases
    case one
    show ?thesis
      by (rule exI [of _ "lowmem_escape1_count g + 1"], rule exI [of _ "lowmem_escape2_count g"],
          rule exI [of _ "lowmem_escape3_count g"])
         (simp add: lowmem_scan_gates_escape1 [OF one])
  next
    case two
    show ?thesis
      by (rule exI [of _ "lowmem_escape1_count g"], rule exI [of _ "lowmem_escape2_count g + 1"],
          rule exI [of _ "lowmem_escape3_count g"])
         (simp add: lowmem_scan_gates_escape2 [OF two])
  next
    case three
    show ?thesis
      by (rule exI [of _ "lowmem_escape1_count g"], rule exI [of _ "lowmem_escape2_count g"],
          rule exI [of _ "lowmem_escape3_count g + 1"])
         (simp add: lowmem_scan_gates_escape3 [OF three])
  qed
qed

subsection \<open>The candidate window\<close>

lemma rank_insert_frame [simp]:
  "G (rank_insert e M b n f p a s) = G f"
  "tasks (rank_insert e M b n f p a s) = tasks f"
  "events (rank_insert e M b n f p a s) = events f"
  "rem (rank_insert e M b n f p a s) = rem f"
  "selected (rank_insert e M b n f p a s) = selected f"
  "selected_tasksize (rank_insert e M b n f p a s) = selected_tasksize f"
  "selected_oom_score_adj (rank_insert e M b n f p a s) = selected_oom_score_adj f"
  by (simp_all add: rank_insert_def Let_def split: option.splits)

lemma list_search_le: "list_search brk xs \<le> length xs"
  by (induction xs) auto

lemma length_list_add_at [simp]: "k \<le> length xs \<Longrightarrow> length (list_add_at k p xs) = Suc (length xs)"
  by (simp add: list_add_at_def)

lemma set_list_add_at [simp]: "set (list_add_at k p xs) = insert p (set xs)"
proof -
  have "set (take k xs) \<union> set (drop k xs) = set xs"
    by (metis append_take_drop_id set_append)
  then show ?thesis by (auto simp: list_add_at_def)
qed

lemma rank_insert_window:
  assumes "window_ok n f" "1 \<le> n"
  shows "window_ok n (rank_insert e M b n f p a s)"
proof -
  have k: "list_search (search_break b M a s) (ListHead f) \<le> length (ListHead f)"
    by (rule list_search_le)
  show ?thesis
    using assms k unfolding window_ok_def rank_insert_def Let_def
    by (auto split: option.splits)
qed

lemma set_tl_subset: "x \<in> set (tl xs) \<Longrightarrow> x \<in> set xs"
  by (cases xs) auto

lemma rank_insert_set:
  "set (ListHead (rank_insert e M b n f p a s)) \<subseteq> insert p (set (ListHead f))"
  unfolding rank_insert_def Let_def
  by (auto split: option.splits dest!: set_tl_subset)

subsection \<open>The scan loop\<close>

lemma same_but_dump_refl [simp]: "same_but_dump g g"
  by (simp add: same_but_dump_def)

lemma same_but_dump_trans: "same_but_dump g g' \<Longrightarrow> same_but_dump g' g'' \<Longrightarrow> same_but_dump g g''"
  unfolding same_but_dump_def
  by (metis (no_types, lifting) lmk.surjective lmk.update_convs(6) lmk.update_convs(7))

lemma dump_candidate_same: "same_but_dump g (dump_candidate e t rss g)"
  by (simp add: same_but_dump_def dump_candidate_def Let_def)

text \<open>The outcome of one iteration: the task is passed over, or it is ranked.\<close>

lemma scan_task_cases:
  assumes "scan_task e M m b n f t = Inr f'"
  obtains (skip) g' where "same_but_dump (G f) g'"
      "f' = f\<lparr>events := events f @ [Visit t], G := g'\<rparr>"
  | (rank) g' a rss where "same_but_dump (G f) g'" "eligible M m t"
      "signal (M t) = Some a" "mm (M t) = Some rss"
      "f' = rank_insert e M b n (f\<lparr>events := events f @ [Visit t], G := g'\<rparr>) t a
              (int_of_ulong rss)"
proof (cases "PF_KTHREAD (M t) \<or> TIF_MM_RELEASED (M t) \<or> TIF_MEMDIE (M t) \<or> mm (M t) = None")
  case True
  then have "f\<lparr>events := events f @ [Visit t]\<rparr> = f'"
    using assms unfolding scan_task_def Let_def
    by (cases "PF_KTHREAD (M t)"; cases "TIF_MM_RELEASED (M t)"; cases "TIF_MEMDIE (M t)";
        cases "mm (M t)") simp_all
  then have "f' = f\<lparr>events := events f @ [Visit t], G := G f\<rparr>"
    by (metis frame.surjective frame.update_convs(1) frame.update_convs(9))
  then show ?thesis using skip [of "G f"] by simp
next
  case False
  then obtain rss where rss: "mm (M t) = Some rss" by auto
  from False assms obtain a where a: "signal (M t) = Some a"
    by (cases "signal (M t)") (auto simp: scan_task_def Let_def rss)
  let ?g = "dump_candidate e (M t) rss (G f)"
  let ?f = "f\<lparr>events := events f @ [Visit t], G := ?g\<rparr>"
  have d: "same_but_dump (G f) ?g" by (rule dump_candidate_same)
  have "f' = ?f \<or> (m \<le> a \<and> 0 < int_of_ulong rss
                    \<and> f' = rank_insert e M b n ?f t a (int_of_ulong rss))"
    using False assms rss a
    by (simp add: scan_task_def Let_def split: if_splits)
  then show ?thesis
  proof
    assume "f' = ?f"
    then show ?thesis using skip [OF d] by simp
  next
    assume "m \<le> a \<and> 0 < int_of_ulong rss
                    \<and> f' = rank_insert e M b n ?f t a (int_of_ulong rss)"
    then show ?thesis
      using rank [OF d _ a rss] False a rss by (auto simp: eligible_def)
  qed
qed

lemma window_ok_frame [simp]:
  "window_ok n (f\<lparr>events := ev, G := g\<rparr>) = window_ok n f"
  by (simp add: window_ok_def)

lemma scan_task_frame:
  assumes "scan_task e M m b n f t = Inr f'"
  shows "tasks f' = tasks f" "rem f' = rem f" "events f' = events f @ [Visit t]"
    "selected f' = selected f" "selected_tasksize f' = selected_tasksize f"
    "selected_oom_score_adj f' = selected_oom_score_adj f" "same_but_dump (G f) (G f')"
  using assms by (auto elim!: scan_task_cases)

lemma scan_task_window:
  assumes "scan_task e M m b n f t = Inr f'" "window_ok n f" "1 \<le> n"
  shows "window_ok n f'"
  using assms by (auto elim!: scan_task_cases intro!: rank_insert_window)

lemma scan_task_set:
  assumes "scan_task e M m b n f t = Inr f'" "q \<in> set (ListHead f')"
  shows "q \<in> set (ListHead f) \<or> (q = t \<and> eligible M m t)"
  using assms(1)
proof (cases rule: scan_task_cases)
  case (skip g')
  then show ?thesis using assms(2) by simp
next
  case (rank g' a rss)
  then show ?thesis
    using assms(2) rank_insert_set [of e M b n "f\<lparr>events := events f @ [Visit t], G := g'\<rparr>" t a
        "int_of_ulong rss"]
    by auto
qed

lemma scan_task_total:
  assumes "mm (M t) \<noteq> None \<longrightarrow> signal (M t) \<noteq> None"
  shows "\<exists>f'. scan_task e M m b n f t = Inr f'"
proof (cases "mm (M t)")
  case None
  then show ?thesis by (simp add: scan_task_def Let_def)
next
  case (Some rss)
  with assms obtain a where "signal (M t) = Some a" by auto
  with Some show ?thesis by (simp add: scan_task_def Let_def)
qed

lemma scan_tasks_frame:
  assumes "scan_tasks e M m b n f procs = Inr f'"
  shows "tasks f' = tasks f \<and> rem f' = rem f \<and> events f' = events f @ map Visit procs
    \<and> selected f' = selected f \<and> selected_tasksize f' = selected_tasksize f
    \<and> selected_oom_score_adj f' = selected_oom_score_adj f \<and> same_but_dump (G f) (G f')"
  using assms
proof (induction procs arbitrary: f)
  case Nil
  then show ?case by simp
next
  case (Cons t rest)
  then obtain f1 where f1: "scan_task e M m b n f t = Inr f1"
    and rest: "scan_tasks e M m b n f1 rest = Inr f'"
    by (auto split: sum.splits)
  from Cons.IH [OF rest] scan_task_frame [OF f1] show ?case
    by (auto intro: same_but_dump_trans)
qed

lemma scan_tasks_window:
  assumes "scan_tasks e M m b n f procs = Inr f'" "window_ok n f" "1 \<le> n"
  shows "window_ok n f'"
  using assms
proof (induction procs arbitrary: f)
  case Nil
  then show ?case by simp
next
  case (Cons t rest)
  then obtain f1 where f1: "scan_task e M m b n f t = Inr f1"
    and rest: "scan_tasks e M m b n f1 rest = Inr f'"
    by (auto split: sum.splits)
  from scan_task_window [OF f1 Cons.prems(2,3)] Cons.IH [OF rest] Cons.prems(3)
  show ?case by simp
qed

lemma scan_tasks_set:
  assumes "scan_tasks e M m b n f procs = Inr f'" "q \<in> set (ListHead f')"
  shows "q \<in> set (ListHead f) \<or> (q \<in> set procs \<and> eligible M m q)"
  using assms
proof (induction procs arbitrary: f)
  case Nil
  then show ?case by simp
next
  case (Cons t rest)
  then obtain f1 where f1: "scan_task e M m b n f t = Inr f1"
    and rest: "scan_tasks e M m b n f1 rest = Inr f'"
    by (auto split: sum.splits)
  from Cons.IH [OF rest Cons.prems(2)] scan_task_set [OF f1] show ?case
    by auto
qed

lemma scan_tasks_total:
  assumes "\<forall>t\<in>set procs. mm (M t) \<noteq> None \<longrightarrow> signal (M t) \<noteq> None"
  shows "\<exists>f'. scan_tasks e M m b n f procs = Inr f'"
  using assms
proof (induction procs arbitrary: f)
  case Nil
  then show ?case by simp
next
  case (Cons t rest)
  then obtain f1 where "scan_task e M m b n f t = Inr f1"
    using scan_task_total [of M t e m b n f] by auto
  with Cons show ?case by simp
qed

lemma nTaskMax_of_pos: "1 \<le> nTaskMax_of b m"
  by (simp add: nTaskMax_of_def)

subsection \<open>The terminator\<close>

lemma kill_step_accepted:
  assumes "accepted e m b f p"
  shows "kill_step e m b n f p =
     f\<lparr>selected := Some p,
       selected_oom_score_adj := score_now f p,
       selected_tasksize := size_now f p,
       G := (G f)\<lparr>killNothing := 0,
                  killNothing_adj := 2000,
                  lowmem_justkilled_timeout := jiffies e + ulong_of_int (int (HZ e) div n),
                  justkilled_adj := m,
                  lowmem_kill_count := lowmem_kill_count (G f) + 1\<rparr>,
       tasks := (tasks f)(p := (tasks f p)\<lparr>TIF_MEMDIE := True\<rparr>),
       rem := rem f + ulong_of_int (size_now f p),
       events := events f @ [SendSigkill p]\<rparr>"
  using assms unfolding accepted_def score_now_def size_now_def kill_step_def Let_def
  by (cases "signal (tasks f p)"; cases "mm (tasks f p)") auto

lemma kill_step_rejected:
  assumes "\<not> accepted e m b f p"
  shows "tasks (kill_step e m b n f p) = tasks f" "events (kill_step e m b n f p) = events f"
    "rem (kill_step e m b n f p) = rem f" "G (kill_step e m b n f p) = G f"
  using assms unfolding accepted_def score_now_def size_now_def kill_step_def Let_def
  by (cases "signal (tasks f p)"; cases "mm (tasks f p)"; auto)+

lemma kill_step_signal [simp]:
  "signal (tasks (kill_step e m b n f p) q) = signal (tasks f q)"
  by (cases "accepted e m b f p") (simp_all add: kill_step_accepted kill_step_rejected)

lemma kill_tasks_signal [simp]:
  "signal (tasks (kill_tasks e m b n f ps) q) = signal (tasks f q)"
  by (induction ps arbitrary: f) simp_all

lemma kill_step_escape_counts [simp]:
  "lowmem_escape1_count (G (kill_step e m b n f p)) = lowmem_escape1_count (G f)"
  "lowmem_escape2_count (G (kill_step e m b n f p)) = lowmem_escape2_count (G f)"
  "lowmem_escape3_count (G (kill_step e m b n f p)) = lowmem_escape3_count (G f)"
  "lowmem_scan_count (G (kill_step e m b n f p)) = lowmem_scan_count (G f)"
  by (cases "accepted e m b f p"; simp add: kill_step_accepted kill_step_rejected)+

lemma kill_tasks_escape_counts [simp]:
  "lowmem_escape1_count (G (kill_tasks e m b n f ps)) = lowmem_escape1_count (G f)"
  "lowmem_escape2_count (G (kill_tasks e m b n f ps)) = lowmem_escape2_count (G f)"
  "lowmem_escape3_count (G (kill_tasks e m b n f ps)) = lowmem_escape3_count (G f)"
  "lowmem_scan_count (G (kill_tasks e m b n f ps)) = lowmem_scan_count (G f)"
  by (induction ps arbitrary: f) simp_all

lemma kill_step_events:
  "events (kill_step e m b n f p) =
     events f @ (if accepted e m b f p then [SendSigkill p] else [])"
  by (cases "accepted e m b f p") (simp_all add: kill_step_accepted kill_step_rejected)

lemma kill_tasks_events:
  "\<exists>ks. events (kill_tasks e m b n f ps) = events f @ map SendSigkill ks \<and> set ks \<subseteq> set ps"
proof (induction ps arbitrary: f)
  case Nil
  show ?case by (rule exI [of _ "[]"]) simp
next
  case (Cons p ps)
  obtain ks where ks: "events (kill_tasks e m b n (kill_step e m b n f p) ps) =
      events (kill_step e m b n f p) @ map SendSigkill ks" "set ks \<subseteq> set ps"
    using Cons.IH by blast
  show ?case
  proof (cases "accepted e m b f p")
    case True
    show ?thesis
      by (rule exI [of _ "p # ks"]) (use ks True in \<open>auto simp: kill_step_events\<close>)
  next
    case False
    show ?thesis
      by (rule exI [of _ ks]) (use ks False in \<open>auto simp: kill_step_events\<close>)
  qed
qed

lemma kill_tasks_killed:
  assumes "SendSigkill q \<in> set (events (kill_tasks e m b n f ps))"
  shows "SendSigkill q \<in> set (events f)
         \<or> (q \<in> set ps \<and> (\<forall>a. signal (tasks f q) = Some a \<longrightarrow> m \<le> a))"
  using assms
proof (induction ps arbitrary: f)
  case Nil
  then show ?case by simp
next
  case (Cons p ps)
  from Cons.IH [of "kill_step e m b n f p"] Cons.prems
  consider "SendSigkill q \<in> set (events (kill_step e m b n f p))"
    | "q \<in> set ps" "\<forall>a. signal (tasks f q) = Some a \<longrightarrow> m \<le> a"
    by auto
  then show ?case
  proof cases
    case 1
    then have "SendSigkill q \<in> set (events f) \<or> (q = p \<and> accepted e m b f p)"
      by (auto simp: kill_step_events split: if_splits)
    then show ?thesis
      by (auto simp: accepted_def score_now_def)
  next
    case 2
    then show ?thesis by simp
  qed
qed

lemma kill_step_marks:
  "tasks (kill_step e m b n f p) q \<noteq> tasks f q \<Longrightarrow> q = p \<and> accepted e m b f p"
  by (cases "accepted e m b f p")
     (auto simp: kill_step_accepted kill_step_rejected split: if_splits)

lemma kill_tasks_marks:
  assumes "tasks (kill_tasks e m b n f ps) q \<noteq> tasks f q"
  shows "SendSigkill q \<in> set (events (kill_tasks e m b n f ps))"
  using assms
proof (induction ps arbitrary: f)
  case Nil
  then show ?case by simp
next
  case (Cons p ps)
  show ?case
  proof (cases "tasks (kill_tasks e m b n (kill_step e m b n f p) ps) q
                  = tasks (kill_step e m b n f p) q")
    case True
    with Cons.prems have "q = p \<and> accepted e m b f p"
      using kill_step_marks [of e m b n f p q] by auto
    then have "SendSigkill q \<in> set (events (kill_step e m b n f p))"
      by (simp add: kill_step_events)
    moreover obtain ks where "events (kill_tasks e m b n (kill_step e m b n f p) ps) =
        events (kill_step e m b n f p) @ map SendSigkill ks"
      using kill_tasks_events by blast
    ultimately show ?thesis by simp
  next
    case False
    from Cons.IH [OF False] show ?thesis by simp
  qed
qed

subsection \<open>The whole invocation\<close>

lemma lowmem_scan_kill_trace:
  "\<exists>ks. trace (lowmem_scan_kill e m b n f) = events f @ map SendSigkill ks @ [MutexUnlock]
        \<and> set ks \<subseteq> set (ListHead f)"
proof -
  let ?f = "f\<lparr>G := (G f)\<lparr>killNothing := 1\<rparr>\<rparr>"
  obtain ks where "events (kill_tasks e m b n ?f (rev (ListHead ?f))) =
      events ?f @ map SendSigkill ks" "set ks \<subseteq> set (rev (ListHead ?f))"
    using kill_tasks_events by blast
  then show ?thesis
    by (intro exI [of _ ks]) (simp add: lowmem_scan_kill_def Let_def)
qed

lemma lowmem_scan_kill_killed:
  assumes "SendSigkill q \<in> set (trace (lowmem_scan_kill e m b n f))"
  shows "SendSigkill q \<in> set (events f)
         \<or> (q \<in> set (ListHead f) \<and> (\<forall>a. signal (tasks f q) = Some a \<longrightarrow> m \<le> a))"
proof -
  let ?f = "f\<lparr>G := (G f)\<lparr>killNothing := 1\<rparr>\<rparr>"
  from assms have "SendSigkill q \<in> set (events (kill_tasks e m b n ?f (rev (ListHead ?f))))"
    by (simp add: lowmem_scan_kill_def Let_def)
  from kill_tasks_killed [OF this] show ?thesis by simp
qed

lemma lowmem_scan_kill_marks:
  assumes "store_after (lowmem_scan_kill e m b n f) q \<noteq> tasks f q"
  shows "SendSigkill q \<in> set (trace (lowmem_scan_kill e m b n f))"
proof -
  let ?f = "f\<lparr>G := (G f)\<lparr>killNothing := 1\<rparr>\<rparr>"
  from assms have "tasks (kill_tasks e m b n ?f (rev (ListHead ?f))) q \<noteq> tasks ?f q"
    by (simp add: lowmem_scan_kill_def Let_def)
  from kill_tasks_marks [OF this] show ?thesis
    by (simp add: lowmem_scan_kill_def Let_def)
qed

lemma lowmem_scan_kill_escape_counts [simp]:
  "lowmem_escape1_count (globals (lowmem_scan_kill e m b n f)) = lowmem_escape1_count (G f)"
  "lowmem_escape2_count (globals (lowmem_scan_kill e m b n f)) = lowmem_escape2_count (G f)"
  "lowmem_escape3_count (globals (lowmem_scan_kill e m b n f)) = lowmem_escape3_count (G f)"
  "lowmem_scan_count (globals (lowmem_scan_kill e m b n f)) = lowmem_scan_count (G f)"
  by (simp_all add: lowmem_scan_kill_def Let_def)

lemma scan_frame_fields [simp]:
  "G (scan_frame g m Mk) = g" "ListHead (scan_frame g m Mk) = []"
  "nTaskNum (scan_frame g m Mk) = 0" "tasks (scan_frame g m Mk) = Mk"
  "events (scan_frame g m Mk) = [MutexLock]" "rem (scan_frame g m Mk) = 0"
  "selected_oom_score_adj (scan_frame g m Mk) = m" "selected_tasksize (scan_frame g m Mk) = 0"
  "selected (scan_frame g m Mk) = None"
  by (simp_all add: scan_frame_def)

lemma window_ok_scan_frame: "1 \<le> n \<Longrightarrow> window_ok n (scan_frame g m Mk)"
  by (simp add: window_ok_def)

lemma lowmem_scan_select_cases:
  assumes "lowmem_scan_select e g m b procs M Mk = Inr r"
  obtains f where "scan_tasks e M m b (nTaskMax_of b m) (scan_frame g m Mk) procs = Inr f"
    "r = lowmem_scan_kill e m b (nTaskMax_of b m) f"
  using assms by (auto simp: lowmem_scan_select_def Let_def split: sum.splits)

text \<open>Every invocation that returns left through an early exit or ran the selection.\<close>

lemma lowmem_scan_cases:
  assumes "lowmem_scan e g procs M Mk = Inr r"
  obtains (interrupted) "mutex_interrupted e"
      "r = \<lparr>ret = 0, globals = g\<lparr>dumppid_tasksize := 0, dumppid := 0\<rparr>,
            store_after = Mk, trace = []\<rparr>"
  | (escaped) c1 c2 c3 where "\<not> mutex_interrupted e" "early_exit e g"
      "r = \<lparr>ret = 0,
            globals = (entry_globals g)\<lparr>lowmem_escape1_count := c1,
                        lowmem_escape2_count := c2, lowmem_escape3_count := c3\<rparr>,
            store_after = Mk, trace = [MutexLock, MutexUnlock]\<rparr>"
  | (selected) "\<not> early_exit e g"
      "lowmem_scan_select e (entry_globals g) (min_score_adj_of g e) (bIsAdapterLMK_of g e)
         procs M Mk = Inr r"
proof (cases "mutex_interrupted e")
  case True
  with assms interrupted show ?thesis by (simp add: lowmem_scan_interrupted)
next
  case False
  let ?m = "min_score_adj_of g e"
  show ?thesis
  proof (cases "post_kill_gate e g ?m \<or> kill_nothing_gate e g ?m \<or> ?m = OOM_SCORE_ADJ_MAX + 1")
    case True
    then have "post_kill_gate e (entry_globals g) ?m \<or> kill_nothing_gate e (entry_globals g) ?m
       \<or> ?m = OOM_SCORE_ADJ_MAX + 1"
      by simp
    from lowmem_scan_gates_early [OF this, of "bIsAdapterLMK_of g e" procs M Mk]
    obtain c1 c2 c3 where
      "lowmem_scan_gates e (entry_globals g) ?m (bIsAdapterLMK_of g e) procs M Mk =
         Inr \<lparr>ret = 0,
            globals = (entry_globals g)\<lparr>lowmem_escape1_count := c1,
                        lowmem_escape2_count := c2, lowmem_escape3_count := c3\<rparr>,
            store_after = Mk, trace = [MutexLock, MutexUnlock]\<rparr>"
      by blast
    then have "r = \<lparr>ret = 0,
            globals = (entry_globals g)\<lparr>lowmem_escape1_count := c1,
                        lowmem_escape2_count := c2, lowmem_escape3_count := c3\<rparr>,
            store_after = Mk, trace = [MutexLock, MutexUnlock]\<rparr>"
      using assms False by (simp add: lowmem_scan_running)
    moreover have "early_exit e g" using True by (simp add: early_exit_def)
    ultimately show ?thesis using escaped False by blast
  next
    case no: False
    then have "lowmem_scan_gates e (entry_globals g) ?m (bIsAdapterLMK_of g e) procs M Mk =
        lowmem_scan_select e (entry_globals g) ?m (bIsAdapterLMK_of g e) procs M Mk"
      by (intro lowmem_scan_gates_open) simp_all
    then have "lowmem_scan_select e (entry_globals g) ?m (bIsAdapterLMK_of g e) procs M Mk = Inr r"
      using assms False by (simp add: lowmem_scan_running)
    moreover have "\<not> early_exit e g" using no False by (simp add: early_exit_def)
    ultimately show ?thesis using selected by blast
  qed
qed

lemma adjust_minadj_score:
  "fst (snd (adjust_minadj g m)) =
     (if enable_adaptive_lmk g \<noteq> 0 \<and> shift_adj g \<noteq> 0 \<and> adj_max_shift < m
      then adj_max_shift else m)"
  unfolding adjust_minadj_def by (cases "enable_adaptive_lmk g = 0") simp_all

subsection \<open>A run on the concrete inputs\<close>

lemma resolve_init: "resolve_min_score_adj lmk_init 3000 5000 = 12"
  by (simp add: resolve_min_score_adj_def lmk_init_table_size lmk_init_tables threshold_loop.simps)

lemma int_of_ulong_ex [simp]: "int_of_ulong 128000 = 128000" "int_of_ulong 12800 = 12800"
  by (simp_all add: int_of_ulong_def)

lemma strstr_ex [simp]:
  "\<not> strstr ''big_app'' ''launcher''" "\<not> strstr ''big_app'' ''auncher3:commo''"
  "\<not> strstr ''big_app'' ''process.acore''" "\<not> strstr ''big_app'' ''process.gapps''"
  "\<not> strstr ''big_app'' ''process.media''" "\<not> strstr ''big_app'' ''system_server''"
  "\<not> strstr ''small_app'' ''launcher''" "\<not> strstr ''small_app'' ''auncher3:commo''"
  "\<not> strstr ''small_app'' ''process.acore''" "\<not> strstr ''small_app'' ''process.gapps''"
  "\<not> strstr ''small_app'' ''process.media''" "\<not> strstr ''small_app'' ''system_server''"
  by simp_all

lemma tasks_ex_simps [simp]:
  "tasks_ex 11 = big_app" "tasks_ex 12 = small_app"
  by (simp_all add: tasks_ex_def)

lemma task_fields [simp]:
  "pid big_app = 101" "comm big_app = ''big_app''" "\<not> PF_KTHREAD big_app"
  "\<not> TIF_MM_RELEASED big_app" "\<not> TIF_MEMDIE big_app" "signal big_app = Some 900"
  "mm big_app = Some 128000"
  "pid small_app = 102" "comm small_app = ''small_app''" "\<not> PF_KTHREAD small_app"
  "\<not> TIF_MM_RELEASED small_app" "\<not> TIF_MEMDIE small_app" "signal small_app = Some 900"
  "mm small_app = Some 12800"
  by (simp_all add: big_app_def small_app_def)

lemma scan_all:
  "scan_tasks env_ex tasks_ex 12 False 6 (scan_frame g 12 tasks_ex) [11, 12] =
     Inr ((scan_frame g 12 tasks_ex)\<lparr>events := [MutexLock, Visit 11, Visit 12], ListHead := [12, 11], nTaskNum := 2,
         G := dump_candidate env_ex small_app 12800 (dump_candidate env_ex big_app 128000 g)\<rparr>)"
  by (simp add: scan_task_def Let_def rank_insert_def env_ex_fields search_break_def list_add_at_def)

lemma min_score_init [simp]:
  "min_score_adj_of lmk_init env_ex = 12" "\<not> bIsAdapterLMK_of lmk_init env_ex"
  by (simp_all add: min_score_adj_of_def bIsAdapterLMK_of_def env_ex_fields resolve_init
        adjust_minadj_score lmk_init_tables)

lemma gates_init [simp]:
  "\<not> post_kill_gate env_ex lmk_init 12" "\<not> kill_nothing_gate env_ex lmk_init 12"
  by (simp_all add: post_kill_gate_def kill_nothing_gate_def lmk_init_def)

lemma nTaskMax_12 [simp]: "nTaskMax_of False 12 = 6"
  by (simp add: nTaskMax_of_def)

lemma kill_all:
  "lowmem_scan_kill env_ex 12 False 6
     ((scan_frame g 12 tasks_ex)\<lparr>events := [MutexLock, Visit 11, Visit 12],
        ListHead := [12, 11], nTaskNum := 2, G := g'\<rparr>) =
   \<lparr>ret = 140800,
    globals = g'\<lparr>killNothing := 0, killNothing_adj := 2000,
                 lowmem_justkilled_timeout := 5016, justkilled_adj := 12,
                 lowmem_kill_count := lowmem_kill_count g' + 2\<rparr>,
    store_after = tasks_ex(11 := big_app\<lparr>TIF_MEMDIE := True\<rparr>,
                           12 := small_app\<lparr>TIF_MEMDIE := True\<rparr>),
    trace = [MutexLock, Visit 11, Visit 12, SendSigkill 11, SendSigkill 12, MutexUnlock]\<rparr>"
  by (simp add: lowmem_scan_kill_def Let_def kill_step_def env_ex_fields ulong_of_int_def)

lemma dump_ex:
  "dump_candidate env_ex small_app 12800 (dump_candidate env_ex big_app 128000 (entry_globals lmk_init))
    = lmk_init\<lparr>lowmem_scan_count := 1, dumppid := 101, dumppid_tasksize := 128000\<rparr>"
  by (simp add: dump_candidate_def Let_def entry_globals_def lmk_init_def env_ex_fields ulong_of_int_def)

lemma lowmem_scan_init_run:
  "lowmem_scan env_ex lmk_init [11, 12] tasks_ex tasks_ex =
   Inr \<lparr>ret = 140800,
        globals = lmk_init\<lparr>lowmem_scan_count := 1, dumppid := 101, dumppid_tasksize := 128000,
                    lowmem_justkilled_timeout := 5016, justkilled_adj := 12,
                    lowmem_kill_count := 2\<rparr>,
        store_after = tasks_ex(11 := big_app\<lparr>TIF_MEMDIE := True\<rparr>,
                           12 := small_app\<lparr>TIF_MEMDIE := True\<rparr>),
        trace = [MutexLock, Visit 11, Visit 12, SendSigkill 11, SendSigkill 12, MutexUnlock]\<rparr>"
proof -
  have "lowmem_scan env_ex lmk_init [11, 12] tasks_ex tasks_ex =
      lowmem_scan_select env_ex (entry_globals lmk_init) 12 False [11, 12] tasks_ex tasks_ex"
    by (simp add: lowmem_scan_running env_ex_fields lowmem_scan_gates_open OOM_SCORE_ADJ_MAX_def)
  also have "\<dots> = Inr (lowmem_scan_kill env_ex 12 False 6
     ((scan_frame (entry_globals lmk_init) 12 tasks_ex)\<lparr>events := [MutexLock, Visit 11, Visit 12],
        ListHead := [12, 11], nTaskNum := 2,
        G := dump_candidate env_ex small_app 12800
               (dump_candidate env_ex big_app 128000 (entry_globals lmk_init))\<rparr>))"
    by (simp add: lowmem_scan_select_def Let_def scan_all del: scan_tasks.simps)
  finally show ?thesis
    by (simp add: kill_all dump_ex) (simp add: lmk_init_def)
qed

subsection \<open>The cooldown example\<close>

lemma lmk_cooling_fields [simp]:
  "justkilled_adj lmk_cooling = 12" "lowmem_justkilled_timeout lmk_cooling = 5025"
  "killNothing_adj lmk_cooling = 2000" "lowmem_killNothing_timeout lmk_cooling = 0"
  "enable_adaptive_lmk lmk_cooling = 0" "shift_adj lmk_cooling = 0"
  by (simp_all add: lmk_cooling_def lmk_init_def)

lemma resolve_min_score_adj_cong:
  "lowmem_adj g = lowmem_adj g' \<Longrightarrow> lowmem_minfree g = lowmem_minfree g' \<Longrightarrow>
   lowmem_adj_size g = lowmem_adj_size g' \<Longrightarrow> lowmem_minfree_size g = lowmem_minfree_size g' \<Longrightarrow>
   resolve_min_score_adj g = resolve_min_score_adj g'"
  by (simp add: resolve_min_score_adj_def table_size_def fun_eq_iff Let_def)

lemma resolve_cooling [simp]:
  "resolve_min_score_adj lmk_cooling = resolve_min_score_adj lmk_init"
  "resolve_min_score_adj (lmk_cooling\<lparr>enable_adaptive_lmk := 1, shift_adj := 1\<rparr>)
     = resolve_min_score_adj lmk_init"
  by (rule resolve_min_score_adj_cong; simp add: lmk_cooling_def)+

lemma time_before_eq_ex [simp]:
  "time_before_eq 5000 5025" "\<not> time_before_eq 5026 5025" "\<not> time_before_eq 5000 0"
  by (simp_all add: time_before_eq_def time_after_eq_def)

lemma min_score_cooling [simp]:
  "min_score_adj_of lmk_cooling env_ex = 12"
  "min_score_adj_of (lmk_cooling\<lparr>enable_adaptive_lmk := 1, shift_adj := 1\<rparr>) env_ex = 12"
  by (simp_all add: min_score_adj_of_def env_ex_fields resolve_init adjust_minadj_score
        adj_max_shift_def)

lemma post_kill_gate_cooling [simp]:
  "post_kill_gate env_ex lmk_cooling 12"
  "post_kill_gate env_ex (lmk_cooling\<lparr>enable_adaptive_lmk := 1, shift_adj := 1\<rparr>) 12"
  by (simp_all add: post_kill_gate_def env_ex_fields)

lemma entry_globals_cooling:
  "(entry_globals lmk_cooling)\<lparr>lowmem_escape1_count := lowmem_escape1_count lmk_cooling + 1\<rparr>
     = lmk_cooling\<lparr>lowmem_scan_count := 1, lowmem_escape1_count := 1\<rparr>"
  by (simp add: entry_globals_def lmk_cooling_def lmk_init_def)

lemma lowmem_scan_select_trace:
  assumes "lowmem_scan_select e g m b procs M Mk = Inr r"
  shows "lowmem_escape1_count (globals r) = lowmem_escape1_count g
         \<and> (\<exists>ks. trace r = MutexLock # map Visit procs @ map SendSigkill ks @ [MutexUnlock])"
  using assms
proof (cases rule: lowmem_scan_select_cases)
  case (1 f)
  from scan_tasks_frame [OF 1(1)]
  have ev: "events f = MutexLock # map Visit procs" and g: "same_but_dump g (G f)"
    by simp_all
  from g have "G f = g\<lparr>dumppid := dumppid (G f), dumppid_tasksize := dumppid_tasksize (G f)\<rparr>"
    by (simp only: same_but_dump_def)
  then have "lowmem_escape1_count (G f) =
      lowmem_escape1_count (g\<lparr>dumppid := dumppid (G f), dumppid_tasksize := dumppid_tasksize (G f)\<rparr>)"
    by (rule arg_cong)
  then have "lowmem_escape1_count (G f) = lowmem_escape1_count g"
    by simp
  moreover obtain ks where
    "trace (lowmem_scan_kill e m b (nTaskMax_of b m) f) =
       events f @ map SendSigkill ks @ [MutexUnlock]"
    using lowmem_scan_kill_trace by blast
  ultimately show ?thesis using 1(2) ev by auto
qed

subsection \<open>Scores below the minimum\<close>

lemma scan_task_discards:
  assumes "signal (M t) = Some a" "a < m"
  shows "\<exists>f'. scan_task e M m b n f t = Inr f' \<and> ListHead f' = ListHead f
              \<and> nTaskNum f' = nTaskNum f"
  using assms unfolding scan_task_def Let_def
  by (cases "PF_KTHREAD (M t)"; cases "TIF_MM_RELEASED (M t)"; cases "TIF_MEMDIE (M t)";
      cases "mm (M t)") simp_all

lemma kill_step_below_min:
  assumes "signal (tasks f p) = Some a" "a < m"
  shows "\<not> accepted e m b f p"
  using assms by (simp add: accepted_def score_now_def)

lemma lowmem_scan_killed:
  assumes "lowmem_scan e g procs M Mk = Inr r" "SendSigkill q \<in> set (trace r)"
  shows "q \<in> set procs \<and> eligible M (min_score_adj_of g e) q
         \<and> (\<forall>a. signal (Mk q) = Some a \<longrightarrow> min_score_adj_of g e \<le> a)"
  using assms(1)
proof (cases rule: lowmem_scan_cases)
  case interrupted
  with assms(2) show ?thesis by simp
next
  case (escaped c1 c2 c3)
  with assms(2) show ?thesis by simp
next
  case selected
  let ?m = "min_score_adj_of g e"
  let ?b = "bIsAdapterLMK_of g e"
  from selected(2) obtain f where
    f: "scan_tasks e M ?m ?b (nTaskMax_of ?b ?m) (scan_frame (entry_globals g) ?m Mk) procs = Inr f"
    and r: "r = lowmem_scan_kill e ?m ?b (nTaskMax_of ?b ?m) f"
    by (rule lowmem_scan_select_cases)
  from scan_tasks_frame [OF f] have ev: "events f = MutexLock # map Visit procs"
    and tk: "tasks f = Mk"
    by simp_all
  from assms(2) r lowmem_scan_kill_killed [of q e ?m ?b "nTaskMax_of ?b ?m" f]
  have "SendSigkill q \<in> set (events f)
         \<or> (q \<in> set (ListHead f) \<and> (\<forall>a. signal (tasks f q) = Some a \<longrightarrow> ?m \<le> a))"
    by simp
  then have q: "q \<in> set (ListHead f)" "\<forall>a. signal (Mk q) = Some a \<longrightarrow> ?m \<le> a"
    using ev tk by auto
  from scan_tasks_set [OF f q(1)] have "q \<in> set procs \<and> eligible M ?m q" by simp
  with q(2) show ?thesis by simp
qed

lemma lowmem_scan_marks:
  assumes "lowmem_scan e g procs M Mk = Inr r" "store_after r q \<noteq> Mk q"
  shows "SendSigkill q \<in> set (trace r)"
  using assms(1)
proof (cases rule: lowmem_scan_cases)
  case interrupted
  with assms(2) show ?thesis by simp
next
  case (escaped c1 c2 c3)
  with assms(2) show ?thesis by simp
next
  case selected
  let ?m = "min_score_adj_of g e"
  let ?b = "bIsAdapterLMK_of g e"
  from selected(2) obtain f where
    f: "scan_tasks e M ?m ?b (nTaskMax_of ?b ?m) (scan_frame (entry_globals g) ?m Mk) procs = Inr f"
    and r: "r = lowmem_scan_kill e ?m ?b (nTaskMax_of ?b ?m) f"
    by (rule lowmem_scan_select_cases)
  from scan_tasks_frame [OF f] have tk: "tasks f = Mk" by simp
  with assms(2) r show ?thesis
    using lowmem_scan_kill_marks [of e ?m ?b "nTaskMax_of ?b ?m" f q] by simp
qed

subsection \<open>The pressure notifier\<close>

lemma int_of_ulong_word_of_int:
  assumes "- (2 ^ 31) \<le> v" "v < 2 ^ 31"
  shows "int_of_ulong (word_of_int v) = v"
proof -
  have "(ucast (word_of_int v :: 64 word) :: 32 word) = word_of_int v"
    by (simp add: unsigned_of_int word_of_int_eq_iff)
  then have "int_of_ulong (word_of_int v) = sint (word_of_int v :: 32 word)"
    by (simp add: int_of_ulong_def)
  also have "\<dots> = signed_take_bit 31 v"
    by (simp add: sint_sbintrunc')
  also have "\<dots> = v"
    using assms by (intro signed_take_bit_int_eq_self) simp_all
  finally show ?thesis .
qed

text \<open>Without wrap-around the file estimate of the notifier is the integer
  \<open>file + zcache - shmem - swapcache\<close>, and the free estimate is the free page count.\<close>

lemma other_file_exact:
  assumes "uint f < 2 ^ 30" "uint z < 2 ^ 30" "uint s < 2 ^ 30" "uint c < 2 ^ 30"
  shows "int_of_ulong (f + z - s - c) = uint f + uint z - uint s - uint c"
proof -
  have w: "f + z - s - c = (word_of_int (uint f + uint z - uint s - uint c) :: 64 word)"
    by simp
  have nn: "0 \<le> uint f" "0 \<le> uint z" "0 \<le> uint s" "0 \<le> uint c"
    by simp_all
  have p: "(2::int) ^ 30 = 1073741824" "(2::int) ^ 31 = 2147483648"
    by simp_all
  have "- (2 ^ 31) \<le> uint f + uint z - uint s - uint c"
    using assms nn unfolding p by linarith
  moreover have "uint f + uint z - uint s - uint c < 2 ^ 31"
    using assms nn unfolding p by linarith
  ultimately show ?thesis
    unfolding w by (rule int_of_ulong_word_of_int)
qed
lemma table_size_le: "table_size g \<le> int (length (lowmem_adj g))"
  by (simp add: table_size_min ARRAY_SIZE_def)

lemma notifier_disabled:
  "enable_adaptive_lmk g = 0 \<Longrightarrow> lmk_vmpressure_notifier g vm pressure = Inr (0, g)"
  by (simp add: lmk_vmpressure_notifier_def)

lemma notifier_high:
  assumes "enable_adaptive_lmk g \<noteq> 0" "98 \<le> pressure" "1 \<le> table_size g"
    "length (lowmem_minfree g) = length (lowmem_adj g)"
  shows "lmk_vmpressure_notifier g vm pressure =
     Inr (0, if int_of_ulong (NR_FREE_PAGES vm) < lowmem_minfree g ! nat (table_size g - 1)
                \<and> int_of_ulong (NR_FILE_PAGES vm + zcache_pages vm - NR_SHMEM vm
                                  - total_swapcache_pages vm) < vmpressure_file_min g
             then g\<lparr>shift_adj := 1\<rparr> else g)"
proof -
  have "\<not> (table_size g - 1 < 0 \<or> int (length (lowmem_minfree g)) \<le> table_size g - 1)"
    using assms(3,4) table_size_le [of g] by simp
  then show ?thesis
    using assms(1,2) by (simp add: lmk_vmpressure_notifier_def Let_def)
qed

lemma notifier_low:
  assumes "enable_adaptive_lmk g \<noteq> 0" "pressure < 98"
  shows "lmk_vmpressure_notifier g vm pressure =
     Inr (0, if shift_adj g \<noteq> 0 then g\<lparr>shift_adj := 0\<rparr> else g)"
proof -
  from assms(2) have "\<not> 98 \<le> pressure" by simp
  then show ?thesis
    using assms(1) by (simp add: lmk_vmpressure_notifier_def)
qed

subsection \<open>Ranking in adaptive mode\<close>

lemma search_break_adaptive:
  "search_break True M a s q \<longleftrightarrow> s \<le> rss_key M q"
  by (simp add: search_break_def rss_key_def)

lemma search_break_adaptive_score:
  "search_break True M a s = search_break True M a' s"
  by (rule ext) (simp add: search_break_adaptive)

lemma rank_insert_adaptive_score:
  "rank_insert e M True n f p a s = rank_insert e M True n f p a' s"
  unfolding rank_insert_def search_break_adaptive_score [of M a s a'] ..

lemma sorted_list_add_at:
  assumes "sorted (map key xs)"
  shows "sorted (map key (list_add_at (list_search (\<lambda>q. key p \<le> key q) xs) p xs))"
  using assms
proof (induction xs)
  case Nil
  then show ?case by (simp add: list_add_at_def)
next
  case (Cons q qs)
  show ?case
  proof (cases "key p \<le> key q")
    case True
    with Cons.prems show ?thesis
      by (auto simp: list_add_at_def)
  next
    case False
    have "list_add_at (Suc k) p (q # qs) = q # list_add_at k p qs" for k
      by (simp add: list_add_at_def)
    with False Cons show ?thesis
      by (auto simp del: set_list_add_at simp add: set_list_add_at [of _ p qs])
  qed
qed

lemma sorted_tl_map: "sorted (map key xs) \<Longrightarrow> sorted (map key (tl xs))"
  by (cases xs) simp_all

lemma rank_insert_sorted:
  assumes "sorted (map (rss_key M) (ListHead f))" "window_ok n f" "s = rss_key M p"
  shows "sorted (map (rss_key M) (ListHead (rank_insert e M True n f p a s)))"
proof -
  let ?brk = "search_break True M a s"
  have brk: "?brk = (\<lambda>q. rss_key M p \<le> rss_key M q)"
    by (rule ext) (simp add: search_break_adaptive assms(3))
  have ins: "sorted (map (rss_key M) (list_add_at (list_search ?brk (ListHead f)) p (ListHead f)))"
    unfolding brk by (rule sorted_list_add_at [OF assms(1)])
  have emp: "nTaskNum f = 0 \<Longrightarrow> ListHead f = []"
    using assms(2) by (simp add: window_ok_def)
  show ?thesis
    using assms(1) ins emp unfolding rank_insert_def Let_def
    by (auto split: option.splits intro: sorted_tl_map)
qed

lemma scan_task_sorted:
  assumes "scan_task e M m True n f t = Inr f'" "sorted (map (rss_key M) (ListHead f))"
    "window_ok n f"
  shows "sorted (map (rss_key M) (ListHead f'))"
  using assms(1)
proof (cases rule: scan_task_cases)
  case (skip g')
  with assms(2) show ?thesis by simp
next
  case (rank g' a rss)
  let ?f = "f\<lparr>events := events f @ [Visit t], G := g'\<rparr>"
  have "sorted (map (rss_key M) (ListHead ?f))" "window_ok n ?f"
    using assms(2,3) by simp_all
  moreover have "int_of_ulong rss = rss_key M t"
    using rank(4) by (simp add: rss_key_def)
  ultimately show ?thesis
    unfolding rank(5) by (rule rank_insert_sorted)
qed

lemma scan_tasks_sorted:
  assumes "scan_tasks e M m True n f procs = Inr f'" "sorted (map (rss_key M) (ListHead f))"
    "window_ok n f" "1 \<le> n"
  shows "sorted (map (rss_key M) (ListHead f'))"
  using assms
proof (induction procs arbitrary: f)
  case Nil
  then show ?case by simp
next
  case (Cons t rest)
  then obtain f1 where f1: "scan_task e M m True n f t = Inr f1"
    and rest: "scan_tasks e M m True n f1 rest = Inr f'"
    by (auto split: sum.splits)
  from Cons.IH [OF rest scan_task_sorted [OF f1 Cons.prems(2,3)]
      scan_task_window [OF f1 Cons.prems(3,4)] Cons.prems(4)]
  show ?case .
qed

text \<open>The terminator walks the list in reverse: in adaptive mode, by descending size.\<close>

lemma adaptive_walk_descending:
  assumes "scan_tasks e M m True n (scan_frame g m Mk) procs = Inr f" "1 \<le> n"
  shows "sorted_wrt (\<lambda>x y. rss_key M y \<le> rss_key M x) (rev (ListHead f))"
proof -
  have "sorted (map (rss_key M) (ListHead f))"
    by (rule scan_tasks_sorted [OF assms(1) _ window_ok_scan_frame [OF assms(2)] assms(2)]) simp
  then have "sorted_wrt (\<lambda>x y. rss_key M x \<le> rss_key M y) (ListHead f)"
    by (simp add: sorted_wrt_map)
  then show ?thesis
    by (simp add: sorted_wrt_rev)
qed

lemma kill_step_below_floor:
  assumes "mm (tasks f p) = Some rss" "int_of_ulong rss * int (PAGE_SIZE e div 1024) < 80 * 1024"
  shows "\<not> accepted e m True f p"
  using assms by (simp add: accepted_def size_now_def)
subsection \<open>The adaptive example\<close>

lemma env_tight_fields:
  "other_free env_tight = 20000" "other_file env_tight = 100" "\<not> mutex_interrupted env_tight"
  "jiffies env_tight = 5000" "HZ env_tight = 100" "PAGE_SIZE env_tight = 4096"
  "current_pid env_tight = 1" "kmalloc_ok env_tight p"
  by (simp_all add: env_tight_def env_ex_def)

lemma resolve_tight: "resolve_min_score_adj lmk_init 20000 100 = 1001"
  by (simp add: resolve_min_score_adj_def lmk_init_table_size lmk_init_tables
        threshold_loop.simps OOM_SCORE_ADJ_MAX_def)

lemma resolve_armed [simp]: "resolve_min_score_adj lmk_armed = resolve_min_score_adj lmk_init"
  by (rule resolve_min_score_adj_cong) (simp_all add: lmk_armed_def)

lemma lmk_armed_fields [simp]:
  "enable_adaptive_lmk lmk_armed = 1" "shift_adj lmk_armed = 1"
  "justkilled_adj lmk_armed = 2000" "killNothing_adj lmk_armed = 2000"
  by (simp_all add: lmk_armed_def lmk_init_def)

lemma min_score_armed [simp]:
  "min_score_adj_of lmk_armed env_tight = 353" "bIsAdapterLMK_of lmk_armed env_tight"
  by (simp_all add: min_score_adj_of_def bIsAdapterLMK_of_def env_tight_fields resolve_tight
        adjust_minadj_score adj_max_shift_def)

lemma gates_armed [simp]:
  "\<not> post_kill_gate env_tight lmk_armed 353" "\<not> kill_nothing_gate env_tight lmk_armed 353"
  by (simp_all add: post_kill_gate_def kill_nothing_gate_def)

lemma nTaskMax_adaptive [simp]: "nTaskMax_of True m = 2"
  by (simp add: nTaskMax_of_def)

lemma scan_adaptive:
  "scan_tasks env_tight tasks_ex 353 True 2 (scan_frame g 353 Mk) [11, 12] =
     Inr ((scan_frame g 353 Mk)\<lparr>events := [MutexLock, Visit 11, Visit 12],
            ListHead := [12, 11], nTaskNum := 2,
            G := dump_candidate env_tight small_app 12800
                   (dump_candidate env_tight big_app 128000 g)\<rparr>)"
  "scan_tasks env_tight tasks_ex 353 True 2 (scan_frame g 353 Mk) [12, 11] =
     Inr ((scan_frame g 353 Mk)\<lparr>events := [MutexLock, Visit 12, Visit 11],
            ListHead := [12, 11], nTaskNum := 2,
            G := dump_candidate env_tight big_app 128000
                   (dump_candidate env_tight small_app 12800 g)\<rparr>)"
  by (simp_all add: scan_task_def Let_def rank_insert_def env_tight_fields search_break_def
        list_add_at_def)

lemma kill_adaptive:
  "lowmem_scan_kill env_tight 353 True 2
     ((scan_frame g 353 tasks_ex)\<lparr>events := ev, ListHead := [12, 11], nTaskNum := 2, G := g'\<rparr>) =
   \<lparr>ret = 128000,
    globals = g'\<lparr>killNothing := 0, killNothing_adj := 2000,
                 lowmem_justkilled_timeout := 5050, justkilled_adj := 353,
                 lowmem_kill_count := lowmem_kill_count g' + 1\<rparr>,
    store_after = tasks_ex(11 := big_app\<lparr>TIF_MEMDIE := True\<rparr>),
    trace = ev @ [SendSigkill 11, MutexUnlock]\<rparr>"
  by (simp add: lowmem_scan_kill_def Let_def kill_step_def env_tight_fields ulong_of_int_def)

lemma tasks_exited_simps [simp]:
  "tasks_exited 11 = big_app" "tasks_exited 12 = small_app\<lparr>mm := None\<rparr>"
  by (simp_all add: tasks_exited_def)

text \<open>The terminator on the same window when the 50 MB task has lost its \<open>mm\<close>: the size
  test reads the 128000 pages left in \<open>selected_tasksize\<close> by the task before it.\<close>

lemma kill_exited:
  "lowmem_scan_kill env_tight 353 True 2
     ((scan_frame g 353 tasks_exited)\<lparr>events := ev, ListHead := [12, 11], nTaskNum := 2,
        G := g'\<rparr>) =
   \<lparr>ret = 256000,
    globals = g'\<lparr>killNothing := 0, killNothing_adj := 2000,
                 lowmem_justkilled_timeout := 5050, justkilled_adj := 353,
                 lowmem_kill_count := lowmem_kill_count g' + 2\<rparr>,
    store_after = tasks_exited(11 := big_app\<lparr>TIF_MEMDIE := True\<rparr>,
                               12 := small_app\<lparr>mm := None, TIF_MEMDIE := True\<rparr>),
    trace = ev @ [SendSigkill 11, SendSigkill 12, MutexUnlock]\<rparr>"
  by (simp add: lowmem_scan_kill_def Let_def kill_step_def env_tight_fields ulong_of_int_def)

lemma dump_adaptive:
  "dump_candidate env_tight small_app 12800
     (dump_candidate env_tight big_app 128000 (entry_globals lmk_armed))
    = lmk_armed\<lparr>shift_adj := 0, lowmem_scan_count := 1, dumppid := 101,
                dumppid_tasksize := 128000\<rparr>"
  "dump_candidate env_tight big_app 128000
     (dump_candidate env_tight small_app 12800 (entry_globals lmk_armed))
    = lmk_armed\<lparr>shift_adj := 0, lowmem_scan_count := 1, dumppid := 101,
                dumppid_tasksize := 128000\<rparr>"
  by (simp_all add: dump_candidate_def Let_def entry_globals_def lmk_armed_def lmk_init_def
        env_tight_fields ulong_of_int_def)

lemma lowmem_scan_adaptive_select:
  "lowmem_scan env_tight lmk_armed procs tasks_ex Mk =
     lowmem_scan_select env_tight (entry_globals lmk_armed) 353 True procs tasks_ex Mk"
  by (simp add: lowmem_scan_running env_tight_fields lowmem_scan_gates_open OOM_SCORE_ADJ_MAX_def)

lemma lowmem_scan_adaptive_run:
  "lowmem_scan env_tight lmk_armed [11, 12] tasks_ex tasks_ex =
   Inr \<lparr>ret = 128000,
        globals = lmk_armed\<lparr>shift_adj := 0, lowmem_scan_count := 1, dumppid := 101,
                    dumppid_tasksize := 128000, lowmem_justkilled_timeout := 5050,
                    justkilled_adj := 353, lowmem_kill_count := 1\<rparr>,
        store_after = tasks_ex(11 := big_app\<lparr>TIF_MEMDIE := True\<rparr>),
        trace = [MutexLock, Visit 11, Visit 12, SendSigkill 11, MutexUnlock]\<rparr>"
  "lowmem_scan env_tight lmk_armed [12, 11] tasks_ex tasks_ex =
   Inr \<lparr>ret = 128000,
        globals = lmk_armed\<lparr>shift_adj := 0, lowmem_scan_count := 1, dumppid := 101,
                    dumppid_tasksize := 128000, lowmem_justkilled_timeout := 5050,
                    justkilled_adj := 353, lowmem_kill_count := 1\<rparr>,
        store_after = tasks_ex(11 := big_app\<lparr>TIF_MEMDIE := True\<rparr>),
        trace = [MutexLock, Visit 12, Visit 11, SendSigkill 11, MutexUnlock]\<rparr>"
  unfolding lowmem_scan_adaptive_select
  by (simp_all add: lowmem_scan_select_def Let_def scan_adaptive kill_adaptive dump_adaptive
        del: scan_tasks.simps)
     (simp_all add: lmk_armed_def lmk_init_def)

lemma lowmem_scan_exited_run:
  "lowmem_scan env_tight lmk_armed [11, 12] tasks_ex tasks_exited =
   Inr \<lparr>ret = 256000,
        globals = lmk_armed\<lparr>shift_adj := 0, lowmem_scan_count := 1, dumppid := 101,
                    dumppid_tasksize := 128000, lowmem_justkilled_timeout := 5050,
                    justkilled_adj := 353, lowmem_kill_count := 2\<rparr>,
        store_after = tasks_exited(11 := big_app\<lparr>TIF_MEMDIE := True\<rparr>,
                                   12 := small_app\<lparr>mm := None, TIF_MEMDIE := True\<rparr>),
        trace = [MutexLock, Visit 11, Visit 12, SendSigkill 11, SendSigkill 12, MutexUnlock]\<rparr>"
  unfolding lowmem_scan_adaptive_select
  by (simp add: lowmem_scan_select_def Let_def scan_adaptive kill_exited dump_adaptive
        del: scan_tasks.simps)
     (simp add: lmk_armed_def lmk_init_def)

section \<open>The claims\<close>

text \<open>C1. Threshold resolution is first match over the table. The table size is the
  array size clamped to the shorter of \<open>lowmem_adj_size\<close> and \<open>lowmem_minfree_size\<close>. For
  all estimator outputs, the score resolved before the adaptive clamp is \<open>lowmem_adj[k]\<close>
  for the smallest index \<open>k\<close> below the table size with both \<open>other_free\<close> and
  \<open>other_file\<close> below \<open>lowmem_minfree[k]\<close>; when no index qualifies it is the sentinel
  \<open>OOM_SCORE_ADJ_MAX + 1\<close>. An invocation that resolves the sentinel and is not turned
  adaptive returns 0, signals no task and leaves the tasks as they are.\<close>

theorem threshold_first_match:
  "table_size g =
     min (ARRAY_SIZE (lowmem_adj g)) (min (lowmem_adj_size g) (lowmem_minfree_size g))
   \<and> (\<forall>k. int k < table_size g
          \<and> other_free e < lowmem_minfree g ! k \<and> other_file e < lowmem_minfree g ! k
          \<and> (\<forall>j<k. \<not> (other_free e < lowmem_minfree g ! j
                       \<and> other_file e < lowmem_minfree g ! j))
        \<longrightarrow> resolve_min_score_adj g (other_free e) (other_file e) = lowmem_adj g ! k)
   \<and> ((\<forall>k. int k < table_size g
          \<longrightarrow> \<not> (other_free e < lowmem_minfree g ! k \<and> other_file e < lowmem_minfree g ! k))
        \<longrightarrow> resolve_min_score_adj g (other_free e) (other_file e) = OOM_SCORE_ADJ_MAX + 1)
   \<and> (resolve_min_score_adj g (other_free e) (other_file e) = OOM_SCORE_ADJ_MAX + 1
        \<and> \<not> bIsAdapterLMK_of g e
        \<longrightarrow> (\<exists>r. lowmem_scan e g procs M Mk = Inr r \<and> ret r = 0 \<and> store_after r = Mk
                 \<and> (\<forall>p. SendSigkill p \<notin> set (trace r))))"
proof (intro conjI allI impI)
  show "table_size g =
     min (ARRAY_SIZE (lowmem_adj g)) (min (lowmem_adj_size g) (lowmem_minfree_size g))"
    by (rule table_size_min)
next
  fix k
  assume h: "int k < table_size g
          \<and> other_free e < lowmem_minfree g ! k \<and> other_file e < lowmem_minfree g ! k
          \<and> (\<forall>j<k. \<not> (other_free e < lowmem_minfree g ! j
                       \<and> other_file e < lowmem_minfree g ! j))"
  show "resolve_min_score_adj g (other_free e) (other_file e) = lowmem_adj g ! k"
    unfolding resolve_min_score_adj_def
    using h by (intro threshold_loop_first) auto
next
  assume "\<forall>k. int k < table_size g
          \<longrightarrow> \<not> (other_free e < lowmem_minfree g ! k \<and> other_file e < lowmem_minfree g ! k)"
  then show "resolve_min_score_adj g (other_free e) (other_file e) = OOM_SCORE_ADJ_MAX + 1"
    unfolding resolve_min_score_adj_def
    by (intro threshold_loop_none) auto
next
  assume h: "resolve_min_score_adj g (other_free e) (other_file e) = OOM_SCORE_ADJ_MAX + 1
        \<and> \<not> bIsAdapterLMK_of g e"
  then have m: "min_score_adj_of g e = OOM_SCORE_ADJ_MAX + 1"
    by (simp add: bIsAdapterLMK_of_def)
  show "\<exists>r. lowmem_scan e g procs M Mk = Inr r \<and> ret r = 0 \<and> store_after r = Mk
                 \<and> (\<forall>p. SendSigkill p \<notin> set (trace r))"
  proof (cases "mutex_interrupted e")
    case True
    then show ?thesis by (simp add: lowmem_scan_interrupted)
  next
    case False
    obtain r where "lowmem_scan_gates e (entry_globals g) (OOM_SCORE_ADJ_MAX + 1)
        (bIsAdapterLMK_of g e) procs M Mk = Inr r" "ret r = 0" "store_after r = Mk"
        "trace r = [MutexLock, MutexUnlock]"
      using lowmem_scan_gates_sentinel by blast
    then show ?thesis using False m by (simp add: lowmem_scan_running)
  qed
qed

theorem threshold_first_match_witness:
  "resolve_min_score_adj lmk_init 3000 5000 = 12
   \<and> resolve_min_score_adj lmk_init 20000 100 = OOM_SCORE_ADJ_MAX + 1
   \<and> (\<exists>r. lowmem_scan (env_ex\<lparr>other_free := 20000, other_file := 100\<rparr>) lmk_init [] tasks_ex tasks_ex = Inr r
          \<and> ret r = 0)"
proof -
  let ?e = "env_ex\<lparr>other_free := 20000, other_file := 100\<rparr>"
  have a: "int 3 < table_size lmk_init
          \<and> other_free env_ex < lowmem_minfree lmk_init ! 3
          \<and> other_file env_ex < lowmem_minfree lmk_init ! 3
          \<and> (\<forall>j<3. \<not> (other_free env_ex < lowmem_minfree lmk_init ! j
                       \<and> other_file env_ex < lowmem_minfree lmk_init ! j))"
    by (simp add: lmk_init_table_size lmk_init_tables env_ex_fields numeral_3_eq_3 less_Suc_eq)
  have b: "\<forall>k. int k < table_size lmk_init
          \<longrightarrow> \<not> (other_free ?e < lowmem_minfree lmk_init ! k
               \<and> other_file ?e < lowmem_minfree lmk_init ! k)"
    by (simp add: lmk_init_table_size lmk_init_tables nth_Cons split: nat.splits)
  note T1 = threshold_first_match [of lmk_init env_ex "[]" tasks_ex tasks_ex]
  note T2 = threshold_first_match [of lmk_init ?e "[]" tasks_ex tasks_ex]
  from T1 a have "resolve_min_score_adj lmk_init (other_free env_ex) (other_file env_ex)
                   = lowmem_adj lmk_init ! 3"
    by blast
  then have 1: "resolve_min_score_adj lmk_init 3000 5000 = 12"
    by (simp add: lmk_init_tables env_ex_fields)
  from T2 b have "resolve_min_score_adj lmk_init (other_free ?e) (other_file ?e)
                   = OOM_SCORE_ADJ_MAX + 1"
    by blast
  then have 2: "resolve_min_score_adj lmk_init 20000 100 = OOM_SCORE_ADJ_MAX + 1"
    by simp
  have c: "resolve_min_score_adj lmk_init (other_free ?e) (other_file ?e) = OOM_SCORE_ADJ_MAX + 1
           \<and> \<not> bIsAdapterLMK_of lmk_init ?e"
    using 2 by (simp add: bIsAdapterLMK_of_def min_score_adj_of_def adjust_minadj_def
                  lmk_init_tables)
  from T2 c have 3: "\<exists>r. lowmem_scan ?e lmk_init [] tasks_ex tasks_ex = Inr r \<and> ret r = 0"
    by blast
  from 1 2 3 show ?thesis by blast
qed

text \<open>C5. The adaptive clamp never raises the score. It changes the score only when the
  adaptive feature is enabled, the shift flag is armed and the score exceeds
  \<open>adj_max_shift\<close>, which is 353; the score then becomes \<open>adj_max_shift\<close>. In every other
  case the score is returned as it was.\<close>

theorem adjust_minadj_clamp:
  "fst (snd (adjust_minadj g m)) \<le> m
   \<and> (fst (snd (adjust_minadj g m)) \<noteq> m
        \<longrightarrow> enable_adaptive_lmk g \<noteq> 0 \<and> shift_adj g \<noteq> 0 \<and> adj_max_shift < m)
   \<and> (enable_adaptive_lmk g \<noteq> 0 \<and> shift_adj g \<noteq> 0 \<and> adj_max_shift < m
        \<longrightarrow> fst (snd (adjust_minadj g m)) = adj_max_shift)
   \<and> (\<not> (enable_adaptive_lmk g \<noteq> 0 \<and> shift_adj g \<noteq> 0 \<and> adj_max_shift < m)
        \<longrightarrow> fst (snd (adjust_minadj g m)) = m)
   \<and> adj_max_shift = 353"
proof -
  have "adj_max_shift = 353" by (simp add: adj_max_shift_def)
  then show ?thesis unfolding adjust_minadj_score by auto
qed

theorem adjust_minadj_clamp_witness:
  "fst (snd (adjust_minadj (lmk_init\<lparr>enable_adaptive_lmk := 1, shift_adj := 1\<rparr>) 906)) = 353
   \<and> fst (snd (adjust_minadj (lmk_init\<lparr>enable_adaptive_lmk := 1, shift_adj := 0\<rparr>) 906)) = 906"
proof -
  let ?armed = "lmk_init\<lparr>enable_adaptive_lmk := 1, shift_adj := 1\<rparr>"
  let ?idle = "lmk_init\<lparr>enable_adaptive_lmk := 1, shift_adj := 0\<rparr>"
  have a: "enable_adaptive_lmk ?armed \<noteq> 0 \<and> shift_adj ?armed \<noteq> 0 \<and> adj_max_shift < 906"
    by (simp add: adj_max_shift_def)
  have b: "\<not> (enable_adaptive_lmk ?idle \<noteq> 0 \<and> shift_adj ?idle \<noteq> 0 \<and> adj_max_shift < 906)"
    by simp
  have "fst (snd (adjust_minadj ?armed 906)) = adj_max_shift"
    by (rule mp [OF adjust_minadj_clamp [of ?armed 906, THEN conjunct2, THEN conjunct2,
                      THEN conjunct1] a])
  then have 1: "fst (snd (adjust_minadj ?armed 906)) = 353"
    by (simp only: adj_max_shift_def)
  have 2: "fst (snd (adjust_minadj ?idle 906)) = 906"
    by (rule mp [OF adjust_minadj_clamp [of ?idle 906, THEN conjunct2, THEN conjunct2,
                      THEN conjunct2, THEN conjunct1] b])
  from 1 2 show ?thesis by (rule conjI)
qed

text \<open>C9 (amended). When the wait for the scan mutex is interrupted, the invocation aborts
  before any scan work: it returns 0, visits and signals no task, leaves the tasks as they
  are, and changes no counter: neither the scan count nor any escape counter. The only
  globals written are the dump target, reset on entry.\<close>

theorem mutex_interrupted_aborts:
  "mutex_interrupted e \<Longrightarrow>
   lowmem_scan e g procs M Mk =
     Inr \<lparr>ret = 0, globals = g\<lparr>dumppid_tasksize := 0, dumppid := 0\<rparr>,
          store_after = Mk, trace = []\<rparr>
   \<and> lowmem_scan_count (g\<lparr>dumppid_tasksize := 0, dumppid := 0\<rparr>) = lowmem_scan_count g
   \<and> lowmem_escape1_count (g\<lparr>dumppid_tasksize := 0, dumppid := 0\<rparr>) = lowmem_escape1_count g
   \<and> lowmem_escape2_count (g\<lparr>dumppid_tasksize := 0, dumppid := 0\<rparr>) = lowmem_escape2_count g
   \<and> lowmem_escape3_count (g\<lparr>dumppid_tasksize := 0, dumppid := 0\<rparr>) = lowmem_escape3_count g"
  by (simp add: lowmem_scan_interrupted)

theorem mutex_interrupted_aborts_witness:
  "mutex_interrupted env_interrupted
   \<and> lowmem_scan env_interrupted lmk_cooling [11, 12] tasks_ex tasks_ex =
       Inr \<lparr>ret = 0, globals = lmk_cooling\<lparr>dumppid_tasksize := 0, dumppid := 0\<rparr>,
            store_after = tasks_ex, trace = []\<rparr>"
proof -
  have i: "mutex_interrupted env_interrupted" by (simp add: env_interrupted_def)
  from mutex_interrupted_aborts [OF i, of lmk_cooling "[11, 12]" tasks_ex tasks_ex] i
  show ?thesis by blast
qed

text \<open>The claim as stated fails: the interrupted invocation increments no escape
  counter. From the initial globals it returns with the globals as they were.\<close>

theorem mutex_interrupted_counts_nothing_counterexample:
  "mutex_interrupted env_interrupted
   \<and> lowmem_scan env_interrupted lmk_init [11, 12] tasks_ex tasks_ex =
       Inr \<lparr>ret = 0, globals = lmk_init, store_after = tasks_ex, trace = []\<rparr>
   \<and> lowmem_escape1_count lmk_init = 0 \<and> lowmem_escape2_count lmk_init = 0
   \<and> lowmem_escape3_count lmk_init = 0"
proof -
  have i: "mutex_interrupted env_interrupted" by (simp add: env_interrupted_def)
  have "lmk_init\<lparr>dumppid_tasksize := 0, dumppid := 0\<rparr> = lmk_init"
    by (simp add: lmk_init_def)
  with lowmem_scan_interrupted [OF i, of lmk_init "[11, 12]" tasks_ex tasks_ex] i
  show ?thesis by (simp add: lmk_init_def)
qed

text \<open>C10 (amended). Every early exit of an invocation (the interrupted wait for the
  mutex, the post-kill gate, the kill-nothing gate, the sentinel) returns 0, leaves the
  tasks as they are and leaves the throttle state unchanged: the two deadlines, the two
  recorded scores and the \<open>killNothing\<close> flag keep their values. Of the globals, only the
  scan and escape counters, the dump target (reset to 0) and the shift flag \<open>shift_adj\<close>
  can differ afterwards; the shift flag is cleared by \<open>adjust_minadj\<close> whenever the
  adaptive feature is enabled and the mutex was taken.\<close>

theorem early_exit_frame:
  "early_exit e g \<Longrightarrow>
   \<exists>r. lowmem_scan e g procs M Mk = Inr r \<and> ret r = 0 \<and> store_after r = Mk
     \<and> lowmem_justkilled_timeout (globals r) = lowmem_justkilled_timeout g
     \<and> justkilled_adj (globals r) = justkilled_adj g
     \<and> lowmem_killNothing_timeout (globals r) = lowmem_killNothing_timeout g
     \<and> killNothing_adj (globals r) = killNothing_adj g
     \<and> killNothing (globals r) = killNothing g
     \<and> globals r = g\<lparr>dumppid_tasksize := 0, dumppid := 0,
                       shift_adj := shift_adj (globals r),
                       lowmem_scan_count := lowmem_scan_count (globals r),
                       lowmem_escape1_count := lowmem_escape1_count (globals r),
                       lowmem_escape2_count := lowmem_escape2_count (globals r),
                       lowmem_escape3_count := lowmem_escape3_count (globals r)\<rparr>
     \<and> shift_adj (globals r) =
         (if mutex_interrupted e \<or> enable_adaptive_lmk g = 0 then shift_adj g else 0)"
proof (cases "mutex_interrupted e")
  case True
  then show ?thesis by (simp add: lowmem_scan_interrupted)
next
  case False
  assume "early_exit e g"
  with False have "post_kill_gate e (entry_globals g) (min_score_adj_of g e)
     \<or> kill_nothing_gate e (entry_globals g) (min_score_adj_of g e)
     \<or> min_score_adj_of g e = OOM_SCORE_ADJ_MAX + 1"
    by (simp add: early_exit_def)
  from lowmem_scan_gates_early [OF this, of "bIsAdapterLMK_of g e" procs M Mk]
  obtain c1 c2 c3 where
    "lowmem_scan_gates e (entry_globals g) (min_score_adj_of g e) (bIsAdapterLMK_of g e)
        procs M Mk =
       Inr \<lparr>ret = 0,
          globals = (entry_globals g)\<lparr>lowmem_escape1_count := c1,
                      lowmem_escape2_count := c2, lowmem_escape3_count := c3\<rparr>,
          store_after = Mk, trace = [MutexLock, MutexUnlock]\<rparr>"
    by blast
  with False show ?thesis
    by (simp add: lowmem_scan_running) (simp add: entry_globals_def)
qed

theorem early_exit_frame_witness:
  "early_exit env_ex lmk_cooling
   \<and> (\<exists>r. lowmem_scan env_ex lmk_cooling [11, 12] tasks_ex tasks_ex = Inr r \<and> ret r = 0
          \<and> lowmem_justkilled_timeout (globals r) = 5025 \<and> justkilled_adj (globals r) = 12)"
proof -
  have x: "early_exit env_ex lmk_cooling"
    by (simp add: early_exit_def)
  from early_exit_frame [OF x, of "[11, 12]" tasks_ex tasks_ex] x
  show ?thesis by auto
qed

text \<open>The claim as stated fails in its last part: with the adaptive feature enabled and
  the shift flag armed, the invocation stopped by the post-kill gate returns with the
  shift flag cleared, which is no diagnostic counter.\<close>

theorem early_exit_clears_shift_adj_counterexample:
  "early_exit env_ex (lmk_cooling\<lparr>enable_adaptive_lmk := 1, shift_adj := 1\<rparr>)
   \<and> lowmem_scan env_ex (lmk_cooling\<lparr>enable_adaptive_lmk := 1, shift_adj := 1\<rparr>) [11, 12]
        tasks_ex tasks_ex =
       Inr \<lparr>ret = 0,
            globals = lmk_cooling\<lparr>enable_adaptive_lmk := 1, shift_adj := 0,
                        lowmem_scan_count := 1, lowmem_escape1_count := 1\<rparr>,
            store_after = tasks_ex, trace = [MutexLock, MutexUnlock]\<rparr>"
proof -
  let ?g = "lmk_cooling\<lparr>enable_adaptive_lmk := 1, shift_adj := 1\<rparr>"
  have x: "early_exit env_ex ?g"
    by (simp add: early_exit_def)
  have "lowmem_scan env_ex ?g [11, 12] tasks_ex tasks_ex =
     Inr \<lparr>ret = 0,
          globals = (entry_globals ?g)\<lparr>lowmem_escape1_count := lowmem_escape1_count ?g + 1\<rparr>,
          store_after = tasks_ex, trace = [MutexLock, MutexUnlock]\<rparr>"
    by (rule lowmem_scan_escape1) (simp_all add: env_ex_fields)
  moreover have "(entry_globals ?g)\<lparr>lowmem_escape1_count := lowmem_escape1_count ?g + 1\<rparr>
     = lmk_cooling\<lparr>enable_adaptive_lmk := 1, shift_adj := 0,
                        lowmem_scan_count := 1, lowmem_escape1_count := 1\<rparr>"
    by (simp add: entry_globals_def lmk_cooling_def lmk_init_def)
  ultimately show ?thesis using x by simp
qed

text \<open>C3 (amended). Post-kill cooldown gate: an invocation that got the mutex, whose
  resolved minimum score is at or above the score recorded at the most recent kill and
  whose current time is at or before the recorded post-kill deadline, is skipped: it takes
  the scan mutex, visits no process, signals nothing, counts as an escape
  (\<open>lowmem_escape1_count\<close>), releases the mutex and returns 0. Once the deadline has
  passed, an invocation that neither the kill-nothing gate nor the sentinel stops runs the
  selection: it visits every process and its first escape counter stays as it was.\<close>

theorem post_kill_cooldown:
  "\<not> mutex_interrupted e \<Longrightarrow>
   (justkilled_adj g \<le> min_score_adj_of g e
      \<and> time_before_eq (jiffies e) (lowmem_justkilled_timeout g)
    \<longrightarrow> lowmem_scan e g procs M Mk =
          Inr \<lparr>ret = 0,
               globals = (entry_globals g)\<lparr>lowmem_escape1_count := lowmem_escape1_count g + 1\<rparr>,
               store_after = Mk, trace = [MutexLock, MutexUnlock]\<rparr>)
   \<and> (\<not> time_before_eq (jiffies e) (lowmem_justkilled_timeout g)
      \<and> \<not> kill_nothing_gate e g (min_score_adj_of g e)
      \<and> min_score_adj_of g e \<noteq> OOM_SCORE_ADJ_MAX + 1
    \<longrightarrow> lowmem_scan e g procs M Mk =
          lowmem_scan_select e (entry_globals g) (min_score_adj_of g e) (bIsAdapterLMK_of g e)
            procs M Mk
        \<and> (\<forall>r. lowmem_scan e g procs M Mk = Inr r
              \<longrightarrow> lowmem_escape1_count (globals r) = lowmem_escape1_count g
                  \<and> (\<exists>ks. trace r =
                        MutexLock # map Visit procs @ map SendSigkill ks @ [MutexUnlock])))"
proof (intro conjI impI)
  assume i: "\<not> mutex_interrupted e"
  assume "justkilled_adj g \<le> min_score_adj_of g e
      \<and> time_before_eq (jiffies e) (lowmem_justkilled_timeout g)"
  then have "post_kill_gate e g (min_score_adj_of g e)"
    by (simp add: post_kill_gate_def)
  with i show "lowmem_scan e g procs M Mk =
          Inr \<lparr>ret = 0,
               globals = (entry_globals g)\<lparr>lowmem_escape1_count := lowmem_escape1_count g + 1\<rparr>,
               store_after = Mk, trace = [MutexLock, MutexUnlock]\<rparr>"
    by (rule lowmem_scan_escape1)
next
  assume i: "\<not> mutex_interrupted e"
  assume h: "\<not> time_before_eq (jiffies e) (lowmem_justkilled_timeout g)
      \<and> \<not> kill_nothing_gate e g (min_score_adj_of g e)
      \<and> min_score_adj_of g e \<noteq> OOM_SCORE_ADJ_MAX + 1"
  then have "\<not> post_kill_gate e (entry_globals g) (min_score_adj_of g e)"
    by (simp add: post_kill_gate_def)
  with h have "lowmem_scan_gates e (entry_globals g) (min_score_adj_of g e)
       (bIsAdapterLMK_of g e) procs M Mk =
     lowmem_scan_select e (entry_globals g) (min_score_adj_of g e) (bIsAdapterLMK_of g e)
            procs M Mk"
    by (intro lowmem_scan_gates_open) simp_all
  with i show sel: "lowmem_scan e g procs M Mk =
          lowmem_scan_select e (entry_globals g) (min_score_adj_of g e) (bIsAdapterLMK_of g e)
            procs M Mk"
    by (simp add: lowmem_scan_running)
  show "\<forall>r. lowmem_scan e g procs M Mk = Inr r
              \<longrightarrow> lowmem_escape1_count (globals r) = lowmem_escape1_count g
                  \<and> (\<exists>ks. trace r =
                        MutexLock # map Visit procs @ map SendSigkill ks @ [MutexUnlock])"
    using lowmem_scan_select_trace [of e "entry_globals g" "min_score_adj_of g e"
        "bIsAdapterLMK_of g e" procs M Mk] sel
    by simp
qed

theorem post_kill_cooldown_witness:
  "lowmem_scan env_ex lmk_cooling [11, 12] tasks_ex tasks_ex =
     Inr \<lparr>ret = 0, globals = lmk_cooling\<lparr>lowmem_scan_count := 1, lowmem_escape1_count := 1\<rparr>,
          store_after = tasks_ex, trace = [MutexLock, MutexUnlock]\<rparr>
   \<and> lowmem_scan (env_ex\<lparr>jiffies := 5026\<rparr>) lmk_cooling [11, 12] tasks_ex tasks_ex =
       lowmem_scan_select (env_ex\<lparr>jiffies := 5026\<rparr>) (entry_globals lmk_cooling) 12 False
         [11, 12] tasks_ex tasks_ex"
proof -
  let ?late = "env_ex\<lparr>jiffies := 5026\<rparr>"
  have i: "\<not> mutex_interrupted env_ex" "\<not> mutex_interrupted ?late"
    by (simp_all add: env_ex_fields)
  have a: "justkilled_adj lmk_cooling \<le> min_score_adj_of lmk_cooling env_ex
      \<and> time_before_eq (jiffies env_ex) (lowmem_justkilled_timeout lmk_cooling)"
    by (simp add: env_ex_fields)
  have m: "min_score_adj_of lmk_cooling ?late = 12" "\<not> bIsAdapterLMK_of lmk_cooling ?late"
    by (simp_all add: min_score_adj_of_def bIsAdapterLMK_of_def env_ex_fields resolve_init
          adjust_minadj_score)
  have b: "\<not> time_before_eq (jiffies ?late) (lowmem_justkilled_timeout lmk_cooling)
      \<and> \<not> kill_nothing_gate ?late lmk_cooling (min_score_adj_of lmk_cooling ?late)
      \<and> min_score_adj_of lmk_cooling ?late \<noteq> OOM_SCORE_ADJ_MAX + 1"
    by (simp add: m kill_nothing_gate_def OOM_SCORE_ADJ_MAX_def)
  from post_kill_cooldown [OF i(1), of lmk_cooling "[11, 12]" tasks_ex tasks_ex] a
  have 1: "lowmem_scan env_ex lmk_cooling [11, 12] tasks_ex tasks_ex =
     Inr \<lparr>ret = 0, globals = lmk_cooling\<lparr>lowmem_scan_count := 1, lowmem_escape1_count := 1\<rparr>,
          store_after = tasks_ex, trace = [MutexLock, MutexUnlock]\<rparr>"
    by (simp only: entry_globals_cooling simp_thms)
  from post_kill_cooldown [OF i(2), of lmk_cooling "[11, 12]" tasks_ex tasks_ex] b
  have 2: "lowmem_scan ?late lmk_cooling [11, 12] tasks_ex tasks_ex =
       lowmem_scan_select ?late (entry_globals lmk_cooling) 12 False [11, 12] tasks_ex tasks_ex"
    by (simp only: m simp_thms)
  from 1 2 show ?thesis by (rule conjI)
qed

text \<open>The claim as stated fails where it says the skip happens without taking the scan
  lock: the gate is evaluated with the mutex held, and the skipped invocation locks and
  unlocks it.\<close>

theorem cooldown_gate_takes_mutex_counterexample:
  "justkilled_adj lmk_cooling \<le> min_score_adj_of lmk_cooling env_ex
   \<and> time_before_eq (jiffies env_ex) (lowmem_justkilled_timeout lmk_cooling)
   \<and> lowmem_scan env_ex lmk_cooling [11, 12] tasks_ex tasks_ex =
       Inr \<lparr>ret = 0, globals = lmk_cooling\<lparr>lowmem_scan_count := 1, lowmem_escape1_count := 1\<rparr>,
            store_after = tasks_ex, trace = [MutexLock, MutexUnlock]\<rparr>"
proof -
  have "lowmem_scan env_ex lmk_cooling [11, 12] tasks_ex tasks_ex =
     Inr \<lparr>ret = 0,
          globals = (entry_globals lmk_cooling)\<lparr>lowmem_escape1_count :=
                       lowmem_escape1_count lmk_cooling + 1\<rparr>,
          store_after = tasks_ex, trace = [MutexLock, MutexUnlock]\<rparr>"
    by (rule lowmem_scan_escape1) (simp_all add: env_ex_fields)
  then show ?thesis
    by (simp only: entry_globals_cooling) (simp add: env_ex_fields)
qed

text \<open>C2. No process whose score is below the resolved minimum score is terminated. The
  scan loop discards a process whose score is below \<open>min_score_adj\<close>: the window is left
  as it was. The terminator skips a ranked candidate whose score has fallen below
  \<open>min_score_adj\<close>: it is not marked, not signalled, not added to the reclaimed total, and
  the globals are untouched. For a whole invocation: every task that is signalled was
  eligible when scanned and, when the terminator reads its score, has a score of at least
  the resolved minimum; and only signalled tasks are marked.\<close>

theorem no_kill_below_min_score:
  "(signal (M t) = Some a \<and> a < m
      \<longrightarrow> (\<exists>f'. scan_task e M m b n f t = Inr f' \<and> ListHead f' = ListHead f
                 \<and> nTaskNum f' = nTaskNum f))
   \<and> (signal (tasks f p) = Some a \<and> a < m
      \<longrightarrow> tasks (kill_step e m b n f p) = tasks f
          \<and> events (kill_step e m b n f p) = events f
          \<and> rem (kill_step e m b n f p) = rem f
          \<and> G (kill_step e m b n f p) = G f)
   \<and> (lowmem_scan e g procs M Mk = Inr r \<and> SendSigkill q \<in> set (trace r)
      \<longrightarrow> q \<in> set procs \<and> eligible M (min_score_adj_of g e) q
          \<and> (\<forall>a'. signal (Mk q) = Some a' \<longrightarrow> min_score_adj_of g e \<le> a'))
   \<and> (lowmem_scan e g procs M Mk = Inr r \<and> store_after r q \<noteq> Mk q
      \<longrightarrow> SendSigkill q \<in> set (trace r))"
proof (intro conjI impI)
  assume "signal (M t) = Some a \<and> a < m"
  then show "\<exists>f'. scan_task e M m b n f t = Inr f' \<and> ListHead f' = ListHead f
                 \<and> nTaskNum f' = nTaskNum f"
    using scan_task_discards by blast
next
  assume h: "signal (tasks f p) = Some a \<and> a < m"
  then have n: "\<not> accepted e m b f p" using kill_step_below_min by blast
  from kill_step_rejected [OF n]
  show "tasks (kill_step e m b n f p) = tasks f" "events (kill_step e m b n f p) = events f"
    "rem (kill_step e m b n f p) = rem f" "G (kill_step e m b n f p) = G f"
    by simp_all
next
  assume h: "lowmem_scan e g procs M Mk = Inr r \<and> SendSigkill q \<in> set (trace r)"
  from lowmem_scan_killed [of e g procs M Mk r q] h
  show "q \<in> set procs" "eligible M (min_score_adj_of g e) q"
    "\<forall>a'. signal (Mk q) = Some a' \<longrightarrow> min_score_adj_of g e \<le> a'"
    by simp_all
next
  assume "lowmem_scan e g procs M Mk = Inr r \<and> store_after r q \<noteq> Mk q"
  then show "SendSigkill q \<in> set (trace r)"
    using lowmem_scan_marks by blast
qed
theorem no_kill_below_min_score_witness:
  "(\<exists>f'. scan_task env_ex tasks_ex 1000 False 1 (scan_frame lmk_init 1000 tasks_ex) 11 = Inr f'
         \<and> ListHead f' = [] \<and> nTaskNum f' = 0)
   \<and> events (kill_step env_ex 1000 False 1 (scan_frame lmk_init 1000 tasks_ex) 11) = [MutexLock]
   \<and> min_score_adj_of lmk_init env_ex \<le> 900"
proof -
  let ?f = "scan_frame lmk_init 1000 tasks_ex"
  let ?r = "\<lparr>ret = 140800,
        globals = lmk_init\<lparr>lowmem_scan_count := 1, dumppid := 101, dumppid_tasksize := 128000,
                    lowmem_justkilled_timeout := 5016, justkilled_adj := 12,
                    lowmem_kill_count := 2\<rparr>,
        store_after = tasks_ex(11 := big_app\<lparr>TIF_MEMDIE := True\<rparr>,
                           12 := small_app\<lparr>TIF_MEMDIE := True\<rparr>),
        trace = [MutexLock, Visit 11, Visit 12, SendSigkill 11, SendSigkill 12, MutexUnlock]\<rparr>"
  note T = no_kill_below_min_score [where M = tasks_ex and t = 11 and a = 900 and m = 1000
      and e = env_ex and b = False and n = 1 and f = ?f and p = 11 and g = lmk_init
      and procs = "[11, 12]" and Mk = tasks_ex and r = ?r and q = 11]
  have a: "signal (tasks_ex 11) = Some 900 \<and> (900::int) < 1000" by simp
  have b: "signal (tasks ?f 11) = Some 900 \<and> (900::int) < 1000" by simp
  have c: "lowmem_scan env_ex lmk_init [11, 12] tasks_ex tasks_ex = Inr ?r
           \<and> SendSigkill 11 \<in> set (trace ?r)"
    by (simp add: lowmem_scan_init_run)
  from T a have 1: "\<exists>f'. scan_task env_ex tasks_ex 1000 False 1 ?f 11 = Inr f'
         \<and> ListHead f' = ListHead ?f \<and> nTaskNum f' = nTaskNum ?f"
    by blast
  from T b have 2: "events (kill_step env_ex 1000 False 1 ?f 11) = events ?f"
    by blast
  from T c have 3: "signal (tasks_ex 11) = Some 900 \<longrightarrow> min_score_adj_of lmk_init env_ex \<le> 900"
    by blast
  from 1 2 3 show ?thesis by simp
qed

text \<open>C4 (amended). For every victim the terminator accepts, and which still has its
  \<open>mm\<close>, the engine marks it dying (\<open>TIF_MEMDIE\<close>), sends it \<open>SIGKILL\<close>, adds its resident
  size to the reclaimed total, counts the kill and clears the \<open>killNothing\<close> flag, and
  updates the post-kill cooldown: the deadline becomes now plus \<open>HZ / nTaskMax\<close>, and the
  recorded ceiling becomes the resolved minimum score \<open>min_score_adj\<close> of the invocation
  (not the victim's own score).\<close>

theorem accepted_victim_effects:
  "accepted e m b f p \<Longrightarrow> mm (tasks f p) = Some rss \<Longrightarrow>
   TIF_MEMDIE (tasks (kill_step e m b n f p) p)
   \<and> events (kill_step e m b n f p) = events f @ [SendSigkill p]
   \<and> rem (kill_step e m b n f p) = rem f + ulong_of_int (int_of_ulong rss)
   \<and> lowmem_justkilled_timeout (G (kill_step e m b n f p)) =
       jiffies e + ulong_of_int (int (HZ e) div n)
   \<and> justkilled_adj (G (kill_step e m b n f p)) = m
   \<and> killNothing (G (kill_step e m b n f p)) = 0
   \<and> lowmem_kill_count (G (kill_step e m b n f p)) = lowmem_kill_count (G f) + 1"
  by (simp add: kill_step_accepted size_now_def)

theorem accepted_victim_effects_witness:
  "accepted env_ex 12 False (scan_frame lmk_init 12 tasks_ex) 11
   \<and> TIF_MEMDIE (tasks (kill_step env_ex 12 False 6 (scan_frame lmk_init 12 tasks_ex) 11) 11)
   \<and> rem (kill_step env_ex 12 False 6 (scan_frame lmk_init 12 tasks_ex) 11) = 128000
   \<and> lowmem_justkilled_timeout (G (kill_step env_ex 12 False 6 (scan_frame lmk_init 12 tasks_ex) 11))
       = 5016
   \<and> justkilled_adj (G (kill_step env_ex 12 False 6 (scan_frame lmk_init 12 tasks_ex) 11)) = 12"
proof -
  let ?f = "scan_frame lmk_init 12 tasks_ex"
  have a: "accepted env_ex 12 False ?f 11"
    by (simp add: accepted_def score_now_def env_ex_fields)
  have r: "mm (tasks ?f 11) = Some 128000" by simp
  have t: "jiffies env_ex + ulong_of_int (int (HZ env_ex) div 6) = 5016"
    "rem ?f + ulong_of_int (int_of_ulong 128000) = 128000"
    by (simp_all add: env_ex_fields ulong_of_int_def)
  from accepted_victim_effects [OF a r, of 6] a t show ?thesis by simp
qed

text \<open>The claim as stated fails in its last part: the recorded ceiling is the resolved
  minimum score, not the victim's score. From the initial globals, with estimator
  outputs that resolve to 12, the two tasks of score 900 are killed and the recorded
  ceiling is 12.\<close>

theorem justkilled_adj_is_min_score_counterexample:
  "signal (tasks_ex 11) = Some 900 \<and> signal (tasks_ex 12) = Some 900
   \<and> lowmem_scan env_ex lmk_init [11, 12] tasks_ex tasks_ex =
     Inr \<lparr>ret = 140800,
        globals = lmk_init\<lparr>lowmem_scan_count := 1, dumppid := 101, dumppid_tasksize := 128000,
                    lowmem_justkilled_timeout := 5016, justkilled_adj := 12,
                    lowmem_kill_count := 2\<rparr>,
        store_after = tasks_ex(11 := big_app\<lparr>TIF_MEMDIE := True\<rparr>,
                           12 := small_app\<lparr>TIF_MEMDIE := True\<rparr>),
        trace = [MutexLock, Visit 11, Visit 12, SendSigkill 11, SendSigkill 12, MutexUnlock]\<rparr>"
  by (simp add: lowmem_scan_init_run)

text \<open>C6. The candidate window never holds more than \<open>nTaskMax\<close> entries: after any
  number of iterations of the scan loop, started on the empty window, \<open>nTaskNum\<close> is the
  length of the list and is at most \<open>nTaskMax\<close>; every further iteration, and every
  insertion into the window, with or without the eviction of the current first entry,
  keeps it so. (One iteration is taken as a whole: the entry evicted from a full window is
  unlinked in the same iteration that linked the new one.) The loop runs through whenever
  every task that has an \<open>mm\<close> has a \<open>signal\<close>.\<close>

theorem window_never_exceeds_nTaskMax:
  "nTaskMax = nTaskMax_of b m \<Longrightarrow>
   (scan_tasks e M m b nTaskMax (scan_frame g m Mk) (take i procs) = Inr f
      \<longrightarrow> nTaskNum f \<le> nTaskMax \<and> nTaskNum f = int (length (ListHead f))
        \<and> (\<forall>t f'. scan_task e M m b nTaskMax f t = Inr f'
               \<longrightarrow> nTaskNum f' \<le> nTaskMax \<and> nTaskNum f' = int (length (ListHead f')))
        \<and> (\<forall>p a s. nTaskNum (rank_insert e M b nTaskMax f p a s) \<le> nTaskMax
               \<and> nTaskNum (rank_insert e M b nTaskMax f p a s)
                   = int (length (ListHead (rank_insert e M b nTaskMax f p a s)))))
   \<and> ((\<forall>t\<in>set (take i procs). mm (M t) \<noteq> None \<longrightarrow> signal (M t) \<noteq> None)
      \<longrightarrow> (\<exists>f1. scan_tasks e M m b nTaskMax (scan_frame g m Mk) (take i procs) = Inr f1))"
proof (intro conjI impI)
  assume n: "nTaskMax = nTaskMax_of b m"
  then have pos: "1 \<le> nTaskMax" by (simp add: nTaskMax_of_pos)
  {
    assume run: "scan_tasks e M m b nTaskMax (scan_frame g m Mk) (take i procs) = Inr f"
    have w: "window_ok nTaskMax f"
      using scan_tasks_window [OF run window_ok_scan_frame [OF pos] pos] .
    have step: "window_ok nTaskMax f'" if "scan_task e M m b nTaskMax f t = Inr f'" for t f'
      using scan_task_window [OF that w pos] .
    have ins: "window_ok nTaskMax (rank_insert e M b nTaskMax f p a s)" for p a s
      using rank_insert_window [OF w pos] .
    from w show "nTaskNum f \<le> nTaskMax" "nTaskNum f = int (length (ListHead f))"
      by (simp_all add: window_ok_def)
    from step show "\<forall>t f'. scan_task e M m b nTaskMax f t = Inr f'
               \<longrightarrow> nTaskNum f' \<le> nTaskMax \<and> nTaskNum f' = int (length (ListHead f'))"
      unfolding window_ok_def by blast
    from ins show "\<forall>p a s. nTaskNum (rank_insert e M b nTaskMax f p a s) \<le> nTaskMax
               \<and> nTaskNum (rank_insert e M b nTaskMax f p a s)
                   = int (length (ListHead (rank_insert e M b nTaskMax f p a s)))"
      unfolding window_ok_def by blast
  next
    assume "\<forall>t\<in>set (take i procs). mm (M t) \<noteq> None \<longrightarrow> signal (M t) \<noteq> None"
    then show "\<exists>f1. scan_tasks e M m b nTaskMax (scan_frame g m Mk) (take i procs) = Inr f1"
      by (rule scan_tasks_total)
  }
qed

theorem window_never_exceeds_nTaskMax_witness:
  "(6::int) = nTaskMax_of False 12
   \<and> scan_tasks env_ex tasks_ex 12 False 6 (scan_frame lmk_init 12 tasks_ex) (take 2 [11, 12]) =
       Inr ((scan_frame lmk_init 12 tasks_ex)\<lparr>events := [MutexLock, Visit 11, Visit 12],
              ListHead := [12, 11], nTaskNum := 2,
              G := dump_candidate env_ex small_app 12800
                     (dump_candidate env_ex big_app 128000 lmk_init)\<rparr>)
   \<and> (2::int) \<le> 6"
proof -
  let ?f = "(scan_frame lmk_init 12 tasks_ex)\<lparr>events := [MutexLock, Visit 11, Visit 12],
              ListHead := [12, 11], nTaskNum := 2,
              G := dump_candidate env_ex small_app 12800
                     (dump_candidate env_ex big_app 128000 lmk_init)\<rparr>"
  have n: "(6::int) = nTaskMax_of False 12" by simp
  have run: "scan_tasks env_ex tasks_ex 12 False 6 (scan_frame lmk_init 12 tasks_ex)
        (take 2 [11, 12]) = Inr ?f"
    using scan_all [of lmk_init] by simp
  have sig: "\<forall>t\<in>set (take 2 [11, 12]). mm (tasks_ex t) \<noteq> None \<longrightarrow> signal (tasks_ex t) \<noteq> None"
    by simp
  note T = window_never_exceeds_nTaskMax [OF n, where e = env_ex and M = tasks_ex
      and g = lmk_init and Mk = tasks_ex and i = 2 and procs = "[11, 12]" and f = ?f]
  from T run have "nTaskNum ?f \<le> 6" by blast
  then have "(2::int) \<le> 6" by simp
  moreover from T sig
  have "\<exists>f1. scan_tasks env_ex tasks_ex 12 False 6 (scan_frame lmk_init 12 tasks_ex)
        (take 2 [11, 12]) = Inr f1"
    by blast
  ultimately show ?thesis using n run by blast
qed

text \<open>C8. Pressure events. With the adaptive feature enabled, an event of level 98 or
  more on a non-empty table arms the shift flag exactly when the free page count is below
  the last entry of the (clamped) minfree table and the file estimate
  \<open>file + zcache - shmem - swapcache\<close> is below \<open>vmpressure_file_min\<close>, and otherwise
  leaves the globals as they are; an event of level below 98 clears the flag when it was
  armed and otherwise changes nothing. The notifier takes no lock and returns 0 in every
  case. The two estimates are C \<open>int\<close>s; as long as the counters stay below \<open>2^30\<close> pages
  they are the integers the formula denotes.\<close>

theorem vmpressure_notifier_policy:
  "length (lowmem_minfree g) = length (lowmem_adj g) \<Longrightarrow>
   (enable_adaptive_lmk g \<noteq> 0 \<and> 98 \<le> pressure \<and> 1 \<le> table_size g
      \<longrightarrow> lmk_vmpressure_notifier g vm pressure =
          Inr (0, if int_of_ulong (NR_FREE_PAGES vm) < lowmem_minfree g ! nat (table_size g - 1)
                     \<and> int_of_ulong (NR_FILE_PAGES vm + zcache_pages vm - NR_SHMEM vm
                                       - total_swapcache_pages vm) < vmpressure_file_min g
                  then g\<lparr>shift_adj := 1\<rparr> else g))
   \<and> (enable_adaptive_lmk g \<noteq> 0 \<and> pressure < 98
      \<longrightarrow> lmk_vmpressure_notifier g vm pressure =
          Inr (0, if shift_adj g \<noteq> 0 then g\<lparr>shift_adj := 0\<rparr> else g))
   \<and> (enable_adaptive_lmk g = 0 \<or> pressure < 98 \<or> 1 \<le> table_size g
      \<longrightarrow> (\<exists>g'. lmk_vmpressure_notifier g vm pressure = Inr (0, g')))
   \<and> (uint (NR_FILE_PAGES vm) < 2 ^ 30 \<and> uint (zcache_pages vm) < 2 ^ 30
        \<and> uint (NR_SHMEM vm) < 2 ^ 30 \<and> uint (total_swapcache_pages vm) < 2 ^ 30
      \<longrightarrow> int_of_ulong (NR_FILE_PAGES vm + zcache_pages vm - NR_SHMEM vm
                         - total_swapcache_pages vm)
          = uint (NR_FILE_PAGES vm) + uint (zcache_pages vm) - uint (NR_SHMEM vm)
            - uint (total_swapcache_pages vm))
   \<and> (uint (NR_FREE_PAGES vm) < 2 ^ 30
      \<longrightarrow> int_of_ulong (NR_FREE_PAGES vm) = uint (NR_FREE_PAGES vm))"
proof (intro conjI impI)
  assume len: "length (lowmem_minfree g) = length (lowmem_adj g)"
  {
    assume "enable_adaptive_lmk g \<noteq> 0 \<and> 98 \<le> pressure \<and> 1 \<le> table_size g"
    then show "lmk_vmpressure_notifier g vm pressure =
          Inr (0, if int_of_ulong (NR_FREE_PAGES vm) < lowmem_minfree g ! nat (table_size g - 1)
                     \<and> int_of_ulong (NR_FILE_PAGES vm + zcache_pages vm - NR_SHMEM vm
                                       - total_swapcache_pages vm) < vmpressure_file_min g
                  then g\<lparr>shift_adj := 1\<rparr> else g)"
      using notifier_high [OF _ _ _ len] by blast
  next
    assume "enable_adaptive_lmk g \<noteq> 0 \<and> pressure < 98"
    then show "lmk_vmpressure_notifier g vm pressure =
          Inr (0, if shift_adj g \<noteq> 0 then g\<lparr>shift_adj := 0\<rparr> else g)"
      using notifier_low by blast
  next
    assume h: "enable_adaptive_lmk g = 0 \<or> pressure < 98 \<or> 1 \<le> table_size g"
    show "\<exists>g'. lmk_vmpressure_notifier g vm pressure = Inr (0, g')"
    proof (cases "enable_adaptive_lmk g = 0")
      case True
      then show ?thesis using notifier_disabled by blast
    next
      case en: False
      show ?thesis
      proof (cases "pressure < 98")
        case True
        from notifier_low [OF en True] show ?thesis by blast
      next
        case False
        then have hi: "98 \<le> pressure" by simp
        from h en False have "1 \<le> table_size g" by blast
        from notifier_high [OF en hi this len] show ?thesis by blast
      qed
    qed
  next
    assume "uint (NR_FILE_PAGES vm) < 2 ^ 30 \<and> uint (zcache_pages vm) < 2 ^ 30
        \<and> uint (NR_SHMEM vm) < 2 ^ 30 \<and> uint (total_swapcache_pages vm) < 2 ^ 30"
    then show "int_of_ulong (NR_FILE_PAGES vm + zcache_pages vm - NR_SHMEM vm
                         - total_swapcache_pages vm)
          = uint (NR_FILE_PAGES vm) + uint (zcache_pages vm) - uint (NR_SHMEM vm)
            - uint (total_swapcache_pages vm)"
      by (intro other_file_exact) simp_all
  next
    assume "uint (NR_FREE_PAGES vm) < 2 ^ 30"
    then have "int_of_ulong (NR_FREE_PAGES vm + 0 - 0 - 0) = uint (NR_FREE_PAGES vm) + uint (0 :: ulong) - uint (0 :: ulong) - uint (0 :: ulong)"
      by (intro other_file_exact) simp_all
    then show "int_of_ulong (NR_FREE_PAGES vm) = uint (NR_FREE_PAGES vm)"
      by simp
  }
qed
theorem vmpressure_notifier_policy_witness:
  "lmk_vmpressure_notifier lmk_adaptive vm_low 99 = Inr (0, lmk_adaptive\<lparr>shift_adj := 1\<rparr>)
   \<and> lmk_vmpressure_notifier (lmk_adaptive\<lparr>shift_adj := 1\<rparr>) vm_low 50 =
       Inr (0, lmk_adaptive\<lparr>shift_adj := 0\<rparr>)"
proof -
  let ?armed = "lmk_adaptive\<lparr>shift_adj := 1\<rparr>"
  have len: "length (lowmem_minfree lmk_adaptive) = length (lowmem_adj lmk_adaptive)"
    "length (lowmem_minfree ?armed) = length (lowmem_adj ?armed)"
    by (simp_all add: lmk_adaptive_def lmk_init_def)
  have ts: "table_size lmk_adaptive = 4"
    by (simp add: table_size_def lmk_adaptive_def lmk_init_def ARRAY_SIZE_def Let_def)
  have h1: "enable_adaptive_lmk lmk_adaptive \<noteq> 0 \<and> (98 :: ulong) \<le> 99
            \<and> 1 \<le> table_size lmk_adaptive"
    by (simp add: ts) (simp add: lmk_adaptive_def)
  have h2: "enable_adaptive_lmk ?armed \<noteq> 0 \<and> (50 :: ulong) < 98"
    by (simp add: lmk_adaptive_def)
  have c: "int_of_ulong (NR_FREE_PAGES vm_low)
             < lowmem_minfree lmk_adaptive ! nat (table_size lmk_adaptive - 1)
           \<and> int_of_ulong (NR_FILE_PAGES vm_low + zcache_pages vm_low - NR_SHMEM vm_low
                             - total_swapcache_pages vm_low) < vmpressure_file_min lmk_adaptive"
    by (simp add: ts) (simp add: vm_low_def lmk_adaptive_def lmk_init_def int_of_ulong_def)
  from vmpressure_notifier_policy [OF len(1), of 99 vm_low] h1
  have "lmk_vmpressure_notifier lmk_adaptive vm_low 99 =
          Inr (0, if int_of_ulong (NR_FREE_PAGES vm_low)
                       < lowmem_minfree lmk_adaptive ! nat (table_size lmk_adaptive - 1)
                     \<and> int_of_ulong (NR_FILE_PAGES vm_low + zcache_pages vm_low - NR_SHMEM vm_low
                                       - total_swapcache_pages vm_low)
                         < vmpressure_file_min lmk_adaptive
                  then lmk_adaptive\<lparr>shift_adj := 1\<rparr> else lmk_adaptive)"
    by blast
  with c have 1: "lmk_vmpressure_notifier lmk_adaptive vm_low 99 =
      Inr (0, lmk_adaptive\<lparr>shift_adj := 1\<rparr>)"
    by (simp only: if_True simp_thms)
  from vmpressure_notifier_policy [OF len(2), of 50 vm_low] h2
  have "lmk_vmpressure_notifier ?armed vm_low 50 =
          Inr (0, if shift_adj ?armed \<noteq> 0 then ?armed\<lparr>shift_adj := 0\<rparr> else ?armed)"
    by blast
  then have 2: "lmk_vmpressure_notifier ?armed vm_low 50 = Inr (0, lmk_adaptive\<lparr>shift_adj := 0\<rparr>)"
    by simp
  from 1 2 show ?thesis by (rule conjI)
qed

text \<open>C7. In adaptive mode the window is ordered by resident size alone and the largest
  candidate is the first victim; a candidate whose resident size is below 80 MB is to be
  skipped at termination time ("do not kill until the app is larger than 80MB", line 763).
  On the 500 MB and 50 MB candidates the source does so as long as the 50 MB task still has
  its \<open>mm\<close>: the 500 MB task alone is signalled and the invocation returns 128000 pages.
  When the 50 MB task has lost its \<open>mm\<close> between the scan and the termination, lines 759
  to 760 leave \<open>selected_tasksize\<close> at the 128000 pages of the victim before it, line 764
  tests that value, and the task is marked, signalled and counted with 128000 pages: the
  invocation returns 256000.\<close>

theorem adaptive_floor_stale_size:
  "bIsAdapterLMK_of lmk_armed env_tight
   \<and> mm (tasks_ex 12) = Some 12800 \<and> mm (tasks_exited 12) = None
   \<and> lowmem_scan env_tight lmk_armed [11, 12] tasks_ex tasks_ex =
       Inr \<lparr>ret = 128000,
            globals = lmk_armed\<lparr>shift_adj := 0, lowmem_scan_count := 1, dumppid := 101,
                        dumppid_tasksize := 128000, lowmem_justkilled_timeout := 5050,
                        justkilled_adj := 353, lowmem_kill_count := 1\<rparr>,
            store_after = tasks_ex(11 := big_app\<lparr>TIF_MEMDIE := True\<rparr>),
            trace = [MutexLock, Visit 11, Visit 12, SendSigkill 11, MutexUnlock]\<rparr>
   \<and> lowmem_scan env_tight lmk_armed [11, 12] tasks_ex tasks_exited =
       Inr \<lparr>ret = 256000,
            globals = lmk_armed\<lparr>shift_adj := 0, lowmem_scan_count := 1, dumppid := 101,
                        dumppid_tasksize := 128000, lowmem_justkilled_timeout := 5050,
                        justkilled_adj := 353, lowmem_kill_count := 2\<rparr>,
            store_after = tasks_exited(11 := big_app\<lparr>TIF_MEMDIE := True\<rparr>,
                                       12 := small_app\<lparr>mm := None, TIF_MEMDIE := True\<rparr>),
            trace = [MutexLock, Visit 11, Visit 12, SendSigkill 11, SendSigkill 12,
                     MutexUnlock]\<rparr>"
proof (intro conjI)
  show "bIsAdapterLMK_of lmk_armed env_tight" by simp
  show "mm (tasks_ex 12) = Some 12800" by simp
  show "mm (tasks_exited 12) = None" by simp
  show "lowmem_scan env_tight lmk_armed [11, 12] tasks_ex tasks_ex =
       Inr \<lparr>ret = 128000,
            globals = lmk_armed\<lparr>shift_adj := 0, lowmem_scan_count := 1, dumppid := 101,
                        dumppid_tasksize := 128000, lowmem_justkilled_timeout := 5050,
                        justkilled_adj := 353, lowmem_kill_count := 1\<rparr>,
            store_after = tasks_ex(11 := big_app\<lparr>TIF_MEMDIE := True\<rparr>),
            trace = [MutexLock, Visit 11, Visit 12, SendSigkill 11, MutexUnlock]\<rparr>"
    by (rule lowmem_scan_adaptive_run(1))
  show "lowmem_scan env_tight lmk_armed [11, 12] tasks_ex tasks_exited =
       Inr \<lparr>ret = 256000,
            globals = lmk_armed\<lparr>shift_adj := 0, lowmem_scan_count := 1, dumppid := 101,
                        dumppid_tasksize := 128000, lowmem_justkilled_timeout := 5050,
                        justkilled_adj := 353, lowmem_kill_count := 2\<rparr>,
            store_after = tasks_exited(11 := big_app\<lparr>TIF_MEMDIE := True\<rparr>,
                                       12 := small_app\<lparr>mm := None, TIF_MEMDIE := True\<rparr>),
            trace = [MutexLock, Visit 11, Visit 12, SendSigkill 11, SendSigkill 12,
                     MutexUnlock]\<rparr>"
    by (rule lowmem_scan_exited_run)
qed

end
